theory Spec2Isabelle
  imports Main "HOL-Library.Word" "HOL-Library.Sublist"
begin

section \<open>JavaScript strings\<close>

text \<open>
  A JavaScript string is a sequence of UTF-16 code units. The Ukrainian literals of
  \<^verbatim>\<open>script.js\<close> are written below as their code units (all of them lie in the Basic
  Multilingual Plane, one code unit per letter); ASCII literals are written with \<open>ascii\<close>.
\<close>

type_synonym jschar = "16 word"

type_synonym jsstring = "jschar list"

definition ascii :: "string \<Rightarrow> jsstring" where
  "ascii s = map of_char s"

text \<open>\<^verbatim>\<open>s.includes(sub)\<close>: \<open>sub\<close> occurs in \<open>s\<close> as a contiguous run of code units.\<close>

definition str_includes :: "jsstring \<Rightarrow> jsstring \<Rightarrow> bool" where
  "str_includes s sub = sublist sub s"

text \<open>
  \<^verbatim>\<open>s.trim()\<close> strips WhiteSpace and LineTerminator code units from both ends: TAB, LF,
  VT, FF, CR, SP, NBSP, the space separators U+1680, U+2000..U+200A, U+202F, U+205F,
  U+3000, the separators U+2028 and U+2029, and the byte order mark U+FEFF.
\<close>

definition isWhiteSpace :: "jschar \<Rightarrow> bool" where
  "isWhiteSpace c =
     ((0x09 \<le> c \<and> c \<le> 0x0D) \<or> c = 0x20 \<or> c = 0xA0 \<or> c = 0x1680 \<or>
      (0x2000 \<le> c \<and> c \<le> 0x200A) \<or> c = 0x2028 \<or> c = 0x2029 \<or> c = 0x202F \<or>
      c = 0x205F \<or> c = 0x3000 \<or> c = 0xFEFF)"

definition trim :: "jsstring \<Rightarrow> jsstring" where
  "trim s = rev (dropWhile isWhiteSpace (rev (dropWhile isWhiteSpace s)))"

text \<open>\<^verbatim>\<open>xs.join(sep)\<close> on an array of strings.\<close>

fun join :: "jsstring \<Rightarrow> jsstring list \<Rightarrow> jsstring" where
  "join sep [] = []"
| "join sep [x] = x"
| "join sep (x # y # ys) = x @ sep @ join sep (y # ys)"

section \<open>The data of TranslationService\<close>

text \<open>
  The object a translator resolves with, and the one \<^verbatim>\<open>translateText\<close> returns:
  \<^verbatim>\<open>{ success, text, service }\<close>. The translated text of a provider is whatever field
  of the parsed response the adapter picks, so it need not be a string: it may be
  \<^verbatim>\<open>undefined\<close> or \<^verbatim>\<open>null\<close>, the values whose \<^verbatim>\<open>.length\<close> cannot be read. The
  result for empty input has no \<^verbatim>\<open>service\<close> field (\<open>None\<close>).
\<close>

datatype nullish = Undefined | Null

datatype jsvalue = JString jsstring | JNullish nullish

record translationResult =
  success :: bool
  text_r :: jsvalue
  service_r :: "jsstring option"

text \<open>
  Awaiting \<^verbatim>\<open>service.translator(text, sourceLang, targetLang)\<close> either yields a result
  object or throws an \<^verbatim>\<open>Error\<close> with a message. What the remote service answers is the
  environment's choice; the promise is taken to settle.
\<close>

datatype outcome = Returned translationResult | Threw jsstring

type_synonym translator = "jsstring \<Rightarrow> jsstring \<Rightarrow> jsstring \<Rightarrow> outcome"

record provider =
  name :: jsstring
  translator :: translator
  priority :: int
  enabled :: bool
  url :: jsstring

datatype logLevel = INFO | WARN | ERROR | SUCCESS

text \<open>
  The \<^verbatim>\<open>details\<close> objects that the calls of \<^verbatim>\<open>log\<close> build. The wall-clock fields
  (\<^verbatim>\<open>timestamp\<close> of an entry, \<^verbatim>\<open>duration\<close> of a successful attempt) are left out.
\<close>

datatype details =
    NoDetails
  | RequestDetails jsstring jsstring nat
  | CandidateDetails nat "jsstring list"
  | SuccessDetails nat
  | ErrorDetails jsstring
  | FailedDetails "jsstring list"

record logEntry =
  level :: logLevel
  service :: "jsstring option"
  message :: jsstring
  details :: details

text \<open>
  The fields of the class. \<open>failedServices\<close> is a JavaScript \<^verbatim>\<open>Set\<close>: a duplicate-free
  list in insertion order, which is the order \<^verbatim>\<open>Array.from\<close> reads it in.
  \<open>uiEntries\<close> is not a field of the class: it records, in order, every entry that
  \<^verbatim>\<open>log\<close> has handed to \<^verbatim>\<open>updateLogsUI\<close>, that is, what the observer of the log has
  been shown.
\<close>

record translationService =
  services :: "provider list"
  failedServices :: "jsstring list"
  logs :: "logEntry list"
  maxLogSize :: nat
  uiEntries :: "logEntry list"

definition set_add :: "jsstring \<Rightarrow> jsstring list \<Rightarrow> jsstring list" where
  "set_add x xs = (if x \<in> set xs then xs else xs @ [x])"

definition set_delete :: "jsstring \<Rightarrow> jsstring list \<Rightarrow> jsstring list" where
  "set_delete x xs = filter (\<lambda>y. y \<noteq> x) xs"

section \<open>Logging\<close>

text \<open>
  \<^verbatim>\<open>log(level, message, service, details)\<close>: push the entry, shift the oldest one out
  when the array has grown beyond \<open>maxLogSize\<close>, hand the entry to the UI. The UI
  callback is code of the page, outside the class; it renders the entry and is taken not
  to throw.
\<close>

definition log ::
  "logLevel \<Rightarrow> jsstring \<Rightarrow> jsstring option \<Rightarrow> details \<Rightarrow> translationService \<Rightarrow> translationService"
where
  "log lv msg svc det this =
     (let logEntry = \<lparr>level = lv, service = svc, message = msg, details = det\<rparr>;
          pushed = logs this @ [logEntry]
      in this\<lparr>logs := (if length pushed > maxLogSize this then tl pushed else pushed),
              uiEntries := uiEntries this @ [logEntry]\<rparr>)"

text \<open>
  The constructor. The four translators are the methods \<^verbatim>\<open>translateMyMemory\<close>,
  \<^verbatim>\<open>translateLibreTranslate\<close>, \<^verbatim>\<open>translateApertium\<close> and \<^verbatim>\<open>translateGoogleAPI\<close>;
  what they yield depends on the remote services, so they are parameters here.
\<close>

definition newTranslationService ::
  "translator \<Rightarrow> translator \<Rightarrow> translator \<Rightarrow> translator \<Rightarrow> translationService"
where
  "newTranslationService myMemory libreTranslate apertium googleAPI =
     \<lparr>services =
        [\<lparr>name = ascii ''MyMemory'', translator = myMemory, priority = 0, enabled = True,
          url = ascii ''https://api.mymemory.translated.net/get''\<rparr>,
         \<lparr>name = ascii ''LibreTranslate'', translator = libreTranslate, priority = 1,
          enabled = True, url = ascii ''https://libretranslate.com/translate''\<rparr>,
         \<lparr>name = ascii ''Apertium'', translator = apertium, priority = 2, enabled = True,
          url = ascii ''https://apertium.org/apy/translate''\<rparr>,
         \<lparr>name = ascii ''GoogleTranslate'', translator = googleAPI, priority = 3,
          enabled = True, url = ascii ''https://translate.googleapis.com''\<rparr>],
      failedServices = [], logs = [], maxLogSize = 1000, uiEntries = []\<rparr>"

section \<open>Messages\<close>

text \<open>The Ukrainian string literals of the log messages and of the backup result.\<close>

definition emptyTextMsg :: jsstring where
  "emptyTextMsg =
     [0x421, 0x43F, 0x440, 0x43E, 0x431, 0x430, 0x20, 0x43F, 0x435, 0x440, 0x435,
      0x43A, 0x43B, 0x430, 0x434, 0x443, 0x20, 0x43F, 0x443, 0x441, 0x442, 0x43E,
      0x433, 0x43E, 0x20, 0x442, 0x435, 0x43A, 0x441, 0x442, 0x443]"

definition startPrefix :: jsstring where
  "startPrefix =
     [0x41F, 0x43E, 0x447, 0x430, 0x442, 0x43E, 0x43A, 0x20, 0x43F, 0x435, 0x440,
      0x435, 0x43A, 0x43B, 0x430, 0x434, 0x443, 0x3A, 0x20, 0x22]"

definition availablePrefix :: jsstring where
  "availablePrefix =
     [0x414, 0x43E, 0x441, 0x442, 0x443, 0x43F, 0x43D, 0x456, 0x20, 0x441, 0x435,
      0x440, 0x432, 0x456, 0x441, 0x438, 0x3A, 0x20]"

definition noServicesMsg :: jsstring where
  "noServicesMsg =
     [0x41D, 0x435, 0x43C, 0x430, 0x454, 0x20, 0x434, 0x43E, 0x441, 0x442, 0x443,
      0x43F, 0x43D, 0x438, 0x445, 0x20, 0x441, 0x435, 0x440, 0x432, 0x456, 0x441,
      0x456, 0x432, 0x20, 0x43F, 0x435, 0x440, 0x435, 0x43A, 0x43B, 0x430, 0x434, 0x443]"

definition attemptPrefix :: jsstring where
  "attemptPrefix =
     [0x421, 0x43F, 0x440, 0x43E, 0x431, 0x430, 0x20, 0x43F, 0x435, 0x440, 0x435,
      0x43A, 0x43B, 0x430, 0x434, 0x443, 0x20, 0x447, 0x435, 0x440, 0x435, 0x437, 0x20]"

definition successPrefix :: jsstring where
  "successPrefix =
     [0x41F, 0x435, 0x440, 0x435, 0x43A, 0x43B, 0x430, 0x434, 0x20, 0x443, 0x441,
      0x43F, 0x456, 0x448, 0x43D, 0x438, 0x439, 0x20, 0x447, 0x435, 0x440, 0x435,
      0x437, 0x20]"

definition errorPrefix :: jsstring where
  "errorPrefix =
     [0x41F, 0x43E, 0x43C, 0x438, 0x43B, 0x43A, 0x430, 0x20, 0x43F, 0x435, 0x440,
      0x435, 0x43A, 0x43B, 0x430, 0x434, 0x443, 0x20, 0x447, 0x435, 0x440, 0x435,
      0x437, 0x20]"

definition limitPrefix :: jsstring where
  "limitPrefix =
     [0x41B, 0x456, 0x43C, 0x456, 0x442, 0x20, 0x441, 0x435, 0x440, 0x432, 0x456,
      0x441, 0x443, 0x20]"

definition limitSuffix :: jsstring where
  "limitSuffix =
     [0x20, 0x43F, 0x435, 0x440, 0x435, 0x432, 0x438, 0x449, 0x435, 0x43D, 0x43E]"

definition allFailedMsg :: jsstring where
  "allFailedMsg =
     [0x423, 0x441, 0x456, 0x20, 0x441, 0x435, 0x440, 0x432, 0x456, 0x441, 0x438, 0x20,
      0x43F, 0x435, 0x440, 0x435, 0x43A, 0x43B, 0x430, 0x434, 0x443, 0x20, 0x43D,
      0x435, 0x20, 0x441, 0x43F, 0x440, 0x430, 0x446, 0x44E, 0x432, 0x430, 0x43B, 0x438]"

definition backupMsg :: jsstring where
  "backupMsg =
     [0x412, 0x438, 0x43A, 0x43E, 0x440, 0x438, 0x441, 0x442, 0x430, 0x43D, 0x43D,
      0x44F, 0x20, 0x440, 0x435, 0x437, 0x435, 0x440, 0x432, 0x43D, 0x43E, 0x433,
      0x43E, 0x20, 0x43F, 0x435, 0x440, 0x435, 0x43A, 0x43B, 0x430, 0x434, 0x443]"

definition backupMarker :: jsstring where
  "backupMarker =
     [0x5B, 0x420, 0x435, 0x437, 0x435, 0x440, 0x432, 0x43D, 0x438, 0x439, 0x20, 0x43F,
      0x435, 0x440, 0x435, 0x43A, 0x43B, 0x430, 0x434, 0x5D, 0x20]"

definition startSuffix :: jsstring where
  "startSuffix = ascii ''...'' @ [0x22]"

text \<open>
  The message of the \<^verbatim>\<open>TypeError\<close> that reading \<^verbatim>\<open>result.text.length\<close> throws when the
  text is \<^verbatim>\<open>undefined\<close> or \<^verbatim>\<open>null\<close>, in the wording of V8. The wording differs between
  engines; none of them contains \<^verbatim>\<open>429\<close> or \<^verbatim>\<open>limit\<close>.
\<close>

definition typeErrorMsg :: "nullish \<Rightarrow> jsstring" where
  "typeErrorMsg v =
     ascii ''Cannot read properties of '' @
     (case v of Undefined \<Rightarrow> ascii ''undefined'' | Null \<Rightarrow> ascii ''null'') @
     ascii '' (reading '' @ [0x27] @ ascii ''length'' @ [0x27] @ ascii '')''"

section \<open>The candidate list\<close>

text \<open>
  \<^verbatim>\<open>this.services.filter(...).sort((a, b) => a.priority - b.priority)\<close>. The sort of
  JavaScript arrays is stable, as insertion sort by key is.
\<close>

definition availableServices :: "translationService \<Rightarrow> provider list" where
  "availableServices this =
     sort_key priority
       (filter (\<lambda>svc. enabled svc \<and> name svc \<notin> set (failedServices this))
          (services this))"

section \<open>The backup dictionary\<close>

text \<open>
  The regular expression \<^verbatim>\<open>new RegExp(`\\b${word}\\b`, 'gi')\<close> for a word of ASCII
  letters, as every key of the dictionary is (the pattern then has no metacharacter).

  Without the \<^verbatim>\<open>u\<close> flag the word characters of \<^verbatim>\<open>\b\<close> are the ASCII letters, the
  digits and the underscore. Under the \<^verbatim>\<open>i\<close> flag two code units match when they
  canonicalize to the same one; canonicalization is \<^verbatim>\<open>toUpperCase\<close>, except that a
  code unit outside ASCII is never mapped into ASCII. Since the pattern characters are
  ASCII letters, only the ASCII part of that mapping matters: a code unit outside ASCII
  differs from every canonicalized pattern character, before and after mapping.
\<close>

definition isWordChar :: "jschar \<Rightarrow> bool" where
  "isWordChar c =
     ((0x41 \<le> c \<and> c \<le> 0x5A) \<or> (0x61 \<le> c \<and> c \<le> 0x7A) \<or>
      (0x30 \<le> c \<and> c \<le> 0x39) \<or> c = 0x5F)"

definition canonicalize :: "jschar \<Rightarrow> jschar" where
  "canonicalize c = (if 0x61 \<le> c \<and> c \<le> 0x7A then c - 0x20 else c)"

text \<open>
  \<^verbatim>\<open>\b\<close> holds at index \<open>i\<close> of \<open>s\<close> when exactly one of the code units before and
  at \<open>i\<close> is a word character; beyond either end of the string there is none.
\<close>

definition wordBoundary :: "jsstring \<Rightarrow> nat \<Rightarrow> bool" where
  "wordBoundary s i =
     ((0 < i \<and> i \<le> length s \<and> isWordChar (s ! (i - 1))) \<noteq>
      (i < length s \<and> isWordChar (s ! i)))"

text \<open>The pattern matches the code units of \<open>s\<close> from index \<open>i\<close> on.\<close>

definition matchesAt :: "jsstring \<Rightarrow> jsstring \<Rightarrow> nat \<Rightarrow> bool" where
  "matchesAt word s i =
     (wordBoundary s i \<and> i + length word \<le> length s \<and>
      map canonicalize (take (length word) (drop i s)) = map canonicalize word \<and>
      wordBoundary s (i + length word))"

text \<open>
  \<^verbatim>\<open>s.replace(regex, val)\<close> with the \<^verbatim>\<open>g\<close> flag: the matches are found from left to
  right in \<open>s\<close> itself, each search starting where the last match ended (one code unit
  further after an empty match); the result is \<open>s\<close> with every match replaced by \<open>val\<close>.
  No value of the dictionary contains \<^verbatim>\<open>$\<close>, so \<open>val\<close> is inserted literally.
\<close>

function replaceFrom :: "jsstring \<Rightarrow> jsstring \<Rightarrow> jsstring \<Rightarrow> nat \<Rightarrow> jsstring" where
  "replaceFrom word val s i =
     (if matchesAt word s i then
        (if word = [] then
           val @ (if i < length s then s ! i # replaceFrom word val s (i + 1) else [])
         else val @ replaceFrom word val s (i + length word))
      else if i < length s then s ! i # replaceFrom word val s (i + 1)
      else [])"
  by pat_completeness auto

termination
  by (relation "measure (\<lambda>(word, val, s, i). Suc (length s) - i)")
     (auto simp: matchesAt_def neq_Nil_conv)

definition replace :: "jsstring \<Rightarrow> jsstring \<Rightarrow> jsstring \<Rightarrow> jsstring" where
  "replace word val s = replaceFrom word val s 0"

text \<open>
  The object literal \<^verbatim>\<open>backupDict\<close>; \<^verbatim>\<open>Object.keys\<close> lists its keys in the order
  they are written. The twenty-first key is given by its code units.
\<close>

definition backupDict :: "(jsstring \<times> jsstring) list" where
  "backupDict =
     [(ascii ''hello'', [0x43F, 0x440, 0x438, 0x432, 0x456, 0x442]),
      (ascii ''world'', [0x441, 0x432, 0x456, 0x442]),
      (ascii ''how'', [0x44F, 0x43A]),
      (ascii ''are'', [0x454]),
      (ascii ''you'', [0x442, 0x438]),
      (ascii ''what'', [0x449, 0x43E]),
      (ascii ''where'', [0x434, 0x435]),
      (ascii ''when'', [0x43A, 0x43E, 0x43B, 0x438]),
      (ascii ''why'', [0x447, 0x43E, 0x43C, 0x443]),
      (ascii ''who'', [0x445, 0x442, 0x43E]),
      (ascii ''which'', [0x44F, 0x43A, 0x438, 0x439]),
      (ascii ''good'', [0x434, 0x43E, 0x431, 0x440, 0x435]),
      (ascii ''morning'', [0x440, 0x430, 0x43D, 0x43E, 0x43A]),
      (ascii ''afternoon'', [0x434, 0x435, 0x43D, 0x44C]),
      (ascii ''evening'', [0x432, 0x435, 0x447, 0x456, 0x440]),
      (ascii ''night'', [0x43D, 0x456, 0x447]),
      (ascii ''thank'', [0x434, 0x44F, 0x43A, 0x443, 0x44E]),
      (ascii ''please'', [0x431, 0x443, 0x434, 0x44C, 0x20, 0x43B, 0x430, 0x441, 0x43A, 0x430]),
      (ascii ''yes'', [0x442, 0x430, 0x43A]),
      (ascii ''no'', [0x43D, 0x456]),
      ([0x73, 0x6F, 0x72, 0x72, 0x79], [0x432, 0x438, 0x431, 0x430, 0x447, 0x442, 0x435]),
      (ascii ''help'', [0x434, 0x43E, 0x43F, 0x43E, 0x43C, 0x43E, 0x433, 0x430]),
      (ascii ''name'', [0x456, 0x43C, 0x27, 0x44F]),
      (ascii ''my'', [0x43C, 0x456, 0x439]),
      (ascii ''is'', [0x454]),
      (ascii ''your'', [0x442, 0x432, 0x456, 0x439]),
      (ascii ''his'', [0x439, 0x43E, 0x433, 0x43E]),
      (ascii ''her'', [0x457, 0x457]),
      (ascii ''our'', [0x43D, 0x430, 0x448]),
      (ascii ''their'', [0x457, 0x445, 0x43D, 0x456, 0x439]),
      (ascii ''and'', [0x456]),
      (ascii ''but'', [0x430, 0x43B, 0x435]),
      (ascii ''or'', [0x430, 0x431, 0x43E]),
      (ascii ''because'', [0x442, 0x43E, 0x43C, 0x443, 0x20, 0x449, 0x43E]),
      (ascii ''if'', [0x44F, 0x43A, 0x449, 0x43E]),
      (ascii ''then'', [0x442, 0x43E, 0x434, 0x456]),
      (ascii ''very'', [0x434, 0x443, 0x436, 0x435]),
      (ascii ''too'', [0x442, 0x435, 0x436]),
      (ascii ''also'', [0x442, 0x430, 0x43A, 0x43E, 0x436]),
      (ascii ''only'', [0x442, 0x456, 0x43B, 0x44C, 0x43A, 0x438])]"

text \<open>The value of the local variable \<^verbatim>\<open>translated\<close> after the \<^verbatim>\<open>forEach\<close>.\<close>

definition translated :: "jsstring \<Rightarrow> jsstring" where
  "translated text = fold (\<lambda>(word, val) t. replace word val t) backupDict text"

definition useBackupTranslation ::
  "translationService \<Rightarrow> jsstring \<Rightarrow> translationResult \<times> translationService"
where
  "useBackupTranslation this text =
     (\<lparr>success = True,
       text_r = JString (backupMarker @ translated text),
       service_r = Some (ascii ''BackupDictionary'')\<rparr>,
      log WARN backupMsg (Some (ascii ''Backup'')) NoDetails this)"

section \<open>translateText\<close>

text \<open>
  The \<^verbatim>\<open>catch\<close> block of the loop, entered with the message of the error that the
  attempt has thrown.
\<close>

definition catchBlock :: "provider \<Rightarrow> jsstring \<Rightarrow> translationService \<Rightarrow> translationService" where
  "catchBlock svc msg this =
     (let this1 = log ERROR (errorPrefix @ name svc) (Some (name svc))
                    (ErrorDetails msg) this
      in if str_includes msg (ascii ''429'') \<or> str_includes msg (ascii ''limit'') then
           log WARN (limitPrefix @ name svc @ limitSuffix) (Some (name svc)) NoDetails
             (this1\<lparr>failedServices := set_add (name svc) (failedServices this1)\<rparr>)
         else this1)"

text \<open>
  The loop over \<^verbatim>\<open>availableServices\<close>. It yields the result that was returned from
  inside the loop (\<open>None\<close> when the loop ran to its end), the service object after the
  loop, and the providers whose translator was called, in the order of the calls.
  The arguments of the SUCCESS entry are evaluated before the entry is logged, so a
  successful result without text throws into the \<^verbatim>\<open>catch\<close> block.
\<close>

fun tryServices ::
  "jsstring \<Rightarrow> jsstring \<Rightarrow> jsstring \<Rightarrow> provider list \<Rightarrow> translationService
     \<Rightarrow> translationResult option \<times> translationService \<times> provider list"
where
  "tryServices text sourceLang targetLang [] this = (None, this, [])"
| "tryServices text sourceLang targetLang (svc # rest) this =
     (let this1 = log INFO (attemptPrefix @ name svc) (Some (name svc)) NoDetails this;
          continue = (\<lambda>this2.
            case tryServices text sourceLang targetLang rest this2 of
              (r, this3, calls) \<Rightarrow> (r, this3, svc # calls))
      in case translator svc text sourceLang targetLang of
           Threw msg \<Rightarrow> continue (catchBlock svc msg this1)
         | Returned result \<Rightarrow>
             if success result then
               (case text_r result of
                  JNullish v \<Rightarrow> continue (catchBlock svc (typeErrorMsg v) this1)
                | JString t \<Rightarrow>
                    let this2 = log SUCCESS (successPrefix @ name svc) (Some (name svc))
                                  (SuccessDetails (length t)) this1
                    in (Some result,
                        this2\<lparr>failedServices := set_delete (name svc) (failedServices this2)\<rparr>,
                        [svc]))
             else continue this1)"

text \<open>
  \<^verbatim>\<open>translateText(text, sourceLang, targetLang)\<close>: the result the promise resolves
  with, the service object afterwards, and the providers whose translator was called.
  \<^verbatim>\<open>!text.trim()\<close> holds exactly when the trimmed string is empty.

  For a string \<open>text\<close> no statement outside the \<^verbatim>\<open>try\<close> block throws, and the
  \<^verbatim>\<open>catch\<close> block only reads the message of the \<^verbatim>\<open>Error\<close> it caught; so the promise
  is never rejected and the result needs no error case.
\<close>

definition translateText ::
  "translationService \<Rightarrow> jsstring \<Rightarrow> jsstring \<Rightarrow> jsstring
     \<Rightarrow> translationResult \<times> translationService \<times> provider list"
where
  "translateText this text sourceLang targetLang =
     (if trim text = [] then
        (\<lparr>success = False, text_r = JString [], service_r = None\<rparr>,
         log WARN emptyTextMsg None NoDetails this,
         [])
      else
        let this1 = log INFO (startPrefix @ take 50 text @ startSuffix) None
                      (RequestDetails sourceLang targetLang (length text)) this;
            available = availableServices this1;
            this2 = log INFO (availablePrefix @ join (ascii '', '') (map name available)) None
                      (CandidateDetails (length available) (failedServices this1)) this1
        in if length available = 0 then
             (case useBackupTranslation (log ERROR noServicesMsg None NoDetails this2) text of
                (r, this3) \<Rightarrow> (r, this3, []))
           else
             (case tryServices text sourceLang targetLang available this2 of
                (Some result, this3, calls) \<Rightarrow> (result, this3, calls)
              | (None, this3, calls) \<Rightarrow>
                  (case useBackupTranslation
                          (log ERROR allFailedMsg None (FailedDetails (failedServices this3)) this3)
                          text of
                     (r, this4) \<Rightarrow> (r, this4, calls))))"

section \<open>Notions used in the statements\<close>

subsection \<open>The outcome of an attempt\<close>

text \<open>
  An attempt succeeds when the translator resolves with \<^verbatim>\<open>success\<close> set and a text
  whose length can be read; every other outcome leaves the loop running.
\<close>

definition attemptSucceeds :: "outcome \<Rightarrow> bool" where
  "attemptSucceeds out =
     (case out of
        Returned result \<Rightarrow>
          success result \<and> (case text_r result of JString t \<Rightarrow> True | JNullish v \<Rightarrow> False)
      | Threw msg \<Rightarrow> False)"

text \<open>
  The service object after an attempt that did not succeed, from the one after the INFO
  entry of the attempt: the three ways through the loop body that reach the next
  iteration.
\<close>

definition failedAttempt :: "provider \<Rightarrow> outcome \<Rightarrow> translationService \<Rightarrow> translationService" where
  "failedAttempt svc out this =
     (case out of
        Threw msg \<Rightarrow> catchBlock svc msg this
      | Returned result \<Rightarrow>
          if success result then
            (case text_r result of
               JNullish v \<Rightarrow> catchBlock svc (typeErrorMsg v) this
             | JString t \<Rightarrow> this)
          else this)"

text \<open>
  The service object when the loop is entered, after the two INFO entries of the
  request, and the result object of the backup translation.
\<close>

definition started ::
  "translationService \<Rightarrow> jsstring \<Rightarrow> jsstring \<Rightarrow> jsstring \<Rightarrow> translationService" where
  "started this text sourceLang targetLang =
     (let this1 = log INFO (startPrefix @ take 50 text @ startSuffix) None
                    (RequestDetails sourceLang targetLang (length text)) this;
          available = availableServices this1
      in log INFO (availablePrefix @ join (ascii '', '') (map name available)) None
           (CandidateDetails (length available) (failedServices this1)) this1)"

definition backupResult :: "jsstring \<Rightarrow> translationResult" where
  "backupResult text =
     \<lparr>success = True, text_r = JString (backupMarker @ translated text),
      service_r = Some (ascii ''BackupDictionary'')\<rparr>"

subsection \<open>What the observer of the log is shown\<close>

text \<open>
  The entries handed to the UI between two states of the service object, and the
  entries that the loop and the backup translation write about a provider.
\<close>

definition newEntries :: "translationService \<Rightarrow> translationService \<Rightarrow> logEntry list" where
  "newEntries this this' = drop (length (uiEntries this)) (uiEntries this')"

definition limitEntry :: "provider \<Rightarrow> logEntry" where
  "limitEntry svc =
     \<lparr>level = WARN, service = Some (name svc), message = limitPrefix @ name svc @ limitSuffix,
      details = NoDetails\<rparr>"

definition successEntry :: "provider \<Rightarrow> nat \<Rightarrow> logEntry" where
  "successEntry svc n =
     \<lparr>level = SUCCESS, service = Some (name svc), message = successPrefix @ name svc,
      details = SuccessDetails n\<rparr>"

definition backupEntry :: logEntry where
  "backupEntry =
     \<lparr>level = WARN, service = Some (ascii ''Backup''), message = backupMsg,
      details = NoDetails\<rparr>"

subsection \<open>Whole words\<close>

text \<open>
  The keys of the dictionary are non-empty words of lower-case ASCII letters.
\<close>

definition isKey :: "jsstring \<Rightarrow> bool" where
  "isKey word = (word \<noteq> [] \<and> (\<forall>c\<in>set word. 0x61 \<le> c \<and> c \<le> 0x7A))"

text \<open>
  A case-insensitive whole-word occurrence of \<open>word\<close> in \<open>s\<close> at index \<open>i\<close>: the code
  units from \<open>i\<close> on equal the word up to case, and neither the code unit before them
  nor the one after them is a word character.
\<close>

definition wholeWordAt :: "jsstring \<Rightarrow> jsstring \<Rightarrow> nat \<Rightarrow> bool" where
  "wholeWordAt word s i =
     (i + length word \<le> length s \<and>
      map canonicalize (take (length word) (drop i s)) = map canonicalize word \<and>
      (i = 0 \<or> \<not> isWordChar (s ! (i - 1))) \<and>
      (i + length word = length s \<or> \<not> isWordChar (s ! (i + length word))))"

definition containsWholeWord :: "jsstring \<Rightarrow> jsstring \<Rightarrow> bool" where
  "containsWholeWord word s = (\<exists>i\<in>{0..<length s}. wholeWordAt word s i)"

text \<open>
  The specification speaks of whole words and of tokens. To a reader of the text a
  token is a run of letters, and a Latin letter with a diacritic or a Cyrillic letter is
  a letter as much as an ASCII one. In that reading a key stands alone in a text when it
  occurs there, up to case, with no letter before it and none after it.
\<close>

definition isLetter :: "jschar \<Rightarrow> bool" where
  "isLetter c =
     (isWordChar c \<or> (0xC0 \<le> c \<and> c \<le> 0x24F \<and> c \<noteq> 0xD7 \<and> c \<noteq> 0xF7) \<or>
      (0x400 \<le> c \<and> c \<le> 0x52F))"

definition standsAloneAt :: "jsstring \<Rightarrow> jsstring \<Rightarrow> nat \<Rightarrow> bool" where
  "standsAloneAt word s i =
     (i + length word \<le> length s \<and>
      map canonicalize (take (length word) (drop i s)) = map canonicalize word \<and>
      (i = 0 \<or> \<not> isLetter (s ! (i - 1))) \<and>
      (i + length word = length s \<or> \<not> isLetter (s ! (i + length word))))"

definition containsKeyAsWord :: "jsstring \<Rightarrow> bool" where
  "containsKeyAsWord s =
     (\<exists>(word, val)\<in>set backupDict. \<exists>i\<in>{0..<length s}. standsAloneAt word s i)"

subsection \<open>Translators and service objects of the examples\<close>

text \<open>
  A translator that settles in the same way whatever it is asked, and the one that
  throws what an adapter throws on HTTP status 429.
\<close>

definition constantTranslator :: "outcome \<Rightarrow> translator" where
  "constantTranslator out = (\<lambda>text sourceLang targetLang. out)"

definition rateLimited :: translator where
  "rateLimited = constantTranslator (Threw (ascii ''MyMemory failed: 429 - Rate limit exceeded''))"

text \<open>An enabled provider descriptor of a given name and priority.\<close>

definition exampleProvider :: "string \<Rightarrow> int \<Rightarrow> translator \<Rightarrow> provider" where
  "exampleProvider n p tr =
     \<lparr>name = ascii n, translator = tr, priority = p, enabled = True, url = []\<rparr>"

text \<open>
  Three results of a translator: success without a text, as \<^verbatim>\<open>translateMyMemory\<close>
  yields it for a response with \<^verbatim>\<open>responseStatus\<close> 200 and no \<^verbatim>\<open>translatedText\<close>
  (it returns the field unchecked); success with the translation of \<^verbatim>\<open>hello\<close>; and a
  result whose \<^verbatim>\<open>success\<close> is not set.
\<close>

definition textless :: translationResult where
  "textless = \<lparr>success = True, text_r = JNullish Undefined, service_r = Some (ascii ''MyMemory'')\<rparr>"

definition greeting :: translationResult where
  "greeting =
     \<lparr>success = True, text_r = JString [0x43F, 0x440, 0x438, 0x432, 0x456, 0x442],
      service_r = Some (ascii ''LibreTranslate'')\<rparr>"

definition declined :: translationResult where
  "declined = \<lparr>success = False, text_r = JString [], service_r = Some (ascii ''MyMemory'')\<rparr>"

text \<open>
  Freshly constructed service objects: the first provider answers without a text, or
  declines, and the second one answers; the last two are rate limited.
\<close>

definition secondAnswers :: translationService where
  "secondAnswers =
     newTranslationService (constantTranslator (Returned textless))
       (constantTranslator (Returned greeting)) rateLimited rateLimited"

definition firstDeclines :: translationService where
  "firstDeclines =
     newTranslationService (constantTranslator (Returned declined))
       (constantTranslator (Returned greeting)) rateLimited rateLimited"

text \<open>A service object with every provider switched off.\<close>

definition disabled :: "translationService \<Rightarrow> translationService" where
  "disabled this = this\<lparr>services := map (\<lambda>svc. svc\<lparr>enabled := False\<rparr>) (services this)\<rparr>"

section \<open>Facts about logging\<close>

lemma maxLogSize_log [simp]: "maxLogSize (log lv msg svc det this) = maxLogSize this"
  by (simp add: log_def Let_def)

lemma services_log [simp]: "services (log lv msg svc det this) = services this"
  by (simp add: log_def Let_def)

lemma failedServices_log [simp]:
  "failedServices (log lv msg svc det this) = failedServices this"
  by (simp add: log_def Let_def)

lemma uiEntries_log [simp]:
  "uiEntries (log lv msg svc det this) =
   uiEntries this @ [\<lparr>level = lv, service = svc, message = msg, details = det\<rparr>]"
  by (simp add: log_def Let_def)

lemma availableServices_log [simp]:
  "availableServices (log lv msg svc det this) = availableServices this"
  by (simp add: availableServices_def)

lemma length_logs_log:
  "length (logs this) \<le> maxLogSize this \<Longrightarrow>
   length (logs (log lv msg svc det this)) \<le> maxLogSize this"
  by (simp add: log_def Let_def)

lemma length_logs_fold:
  "length (logs this) \<le> maxLogSize this \<Longrightarrow>
   length (logs (fold (\<lambda>(lv, msg, svc, det). log lv msg svc det) entries this)) \<le> maxLogSize this"
proof (induction entries arbitrary: this)
  case Nil
  then show ?case by simp
next
  case (Cons e entries)
  obtain lv msg svc det where e: "e = (lv, msg, svc, det)" by (cases e)
  from Cons.prems have "length (logs (log lv msg svc det this)) \<le> maxLogSize (log lv msg svc det this)"
    by (simp add: length_logs_log)
  from Cons.IH [OF this] e show ?case by simp
qed

section \<open>Strings\<close>

lemma trim_empty: "trim s = [] \<longleftrightarrow> (\<forall>c\<in>set s. isWhiteSpace c)"
proof
  assume "trim s = []"
  then have "\<forall>c\<in>set (dropWhile isWhiteSpace s). isWhiteSpace c"
    by (simp add: trim_def)
  then have "dropWhile isWhiteSpace s = []"
    using hd_dropWhile [of isWhiteSpace s] hd_in_set by blast
  then show "\<forall>c\<in>set s. isWhiteSpace c"
    by simp
next
  assume "\<forall>c\<in>set s. isWhiteSpace c"
  then show "trim s = []"
    by (auto simp: trim_def dest: set_dropWhileD)
qed

lemma typeErrorMsg_units:
  "0x34 \<notin> set (typeErrorMsg v)" "0x6D \<notin> set (typeErrorMsg v)"
  by (cases v; simp add: typeErrorMsg_def ascii_def)+

lemma typeErrorMsg_no_marker:
  "\<not> str_includes (typeErrorMsg v) (ascii ''429'')"
  "\<not> str_includes (typeErrorMsg v) (ascii ''limit'')"
proof -
  have "0x34 \<in> set (typeErrorMsg v)" if "str_includes (typeErrorMsg v) (ascii ''429'')"
    using set_mono_sublist [OF that [unfolded str_includes_def]] by (simp add: ascii_def)
  then show "\<not> str_includes (typeErrorMsg v) (ascii ''429'')"
    using typeErrorMsg_units(1) by blast
  have "0x6D \<in> set (typeErrorMsg v)" if "str_includes (typeErrorMsg v) (ascii ''limit'')"
    using set_mono_sublist [OF that [unfolded str_includes_def]] by (simp add: ascii_def)
  then show "\<not> str_includes (typeErrorMsg v) (ascii ''limit'')"
    using typeErrorMsg_units(2) by blast
qed

section \<open>The loop over the candidates\<close>

declare tryServices.simps(2) [simp del]

lemma attemptSucceeds_cases:
  assumes "attemptSucceeds out"
  obtains result t where "out = Returned result" "success result" "text_r result = JString t"
  using assms by (auto simp: attemptSucceeds_def split: outcome.splits jsvalue.splits)

lemma attemptSucceeds_Threw [simp]: "\<not> attemptSucceeds (Threw msg)"
  by (simp add: attemptSucceeds_def)

lemma attemptSucceeds_Returned:
  "attemptSucceeds (Returned result) \<longleftrightarrow> success result \<and> (\<exists>t. text_r result = JString t)"
  by (auto simp: attemptSucceeds_def split: jsvalue.splits)

lemma tryServices_fail_step:
  "\<not> attemptSucceeds (translator svc text src tgt) \<Longrightarrow>
   tryServices text src tgt (svc # rest) this =
     (case tryServices text src tgt rest
             (failedAttempt svc (translator svc text src tgt)
                (log INFO (attemptPrefix @ name svc) (Some (name svc)) NoDetails this)) of
        (r, this', calls) \<Rightarrow> (r, this', svc # calls))"
  by (simp add: tryServices.simps(2) attemptSucceeds_def failedAttempt_def Let_def
      split: outcome.splits jsvalue.splits)

lemma tryServices_success_step:
  "translator svc text src tgt = Returned result \<Longrightarrow> success result \<Longrightarrow>
   text_r result = JString t \<Longrightarrow>
   tryServices text src tgt (svc # rest) this =
     (Some result,
      (log SUCCESS (successPrefix @ name svc) (Some (name svc)) (SuccessDetails (length t))
         (log INFO (attemptPrefix @ name svc) (Some (name svc)) NoDetails this))
        \<lparr>failedServices := set_delete (name svc) (failedServices this)\<rparr>,
      [svc])"
  by (simp add: tryServices.simps(2) Let_def)

lemma tryServices_unfold:
  obtains (stop) result t where
      "translator svc text src tgt = Returned result" "success result" "text_r result = JString t"
      "tryServices text src tgt (svc # rest) this =
         (Some result,
          (log SUCCESS (successPrefix @ name svc) (Some (name svc)) (SuccessDetails (length t))
             (log INFO (attemptPrefix @ name svc) (Some (name svc)) NoDetails this))
            \<lparr>failedServices := set_delete (name svc) (failedServices this)\<rparr>,
          [svc])"
  | (continue) r this' calls where
      "\<not> attemptSucceeds (translator svc text src tgt)"
      "tryServices text src tgt rest
         (failedAttempt svc (translator svc text src tgt)
            (log INFO (attemptPrefix @ name svc) (Some (name svc)) NoDetails this)) = (r, this', calls)"
      "tryServices text src tgt (svc # rest) this = (r, this', svc # calls)"
proof (cases "attemptSucceeds (translator svc text src tgt)")
  case True
  then show ?thesis
    by (elim attemptSucceeds_cases) (rule stop, simp_all add: tryServices_success_step)
next
  case False
  obtain r this' calls where
    "tryServices text src tgt rest
       (failedAttempt svc (translator svc text src tgt)
          (log INFO (attemptPrefix @ name svc) (Some (name svc)) NoDetails this)) = (r, this', calls)"
    by (metis prod_cases3)
  with False show ?thesis
    by (intro continue [of r this' calls]) (simp_all add: tryServices_fail_step)
qed

lemma tryServices_success:
  "tryServices text src tgt cands this = (Some r, this', calls) \<Longrightarrow> success r"
  by (induction cands arbitrary: this this' calls)
     (auto simp: tryServices.simps(2) Let_def split: outcome.splits jsvalue.splits prod.splits if_splits)

lemma tryServices_calls_prefix:
  "tryServices text src tgt cands this = (r, this', calls) \<Longrightarrow> prefix calls cands"
  by (induction cands arbitrary: this r this' calls)
     (auto simp: tryServices.simps(2) Let_def split: outcome.splits jsvalue.splits prod.splits if_splits)

lemma tryServices_None_calls:
  "tryServices text src tgt cands this = (None, this', calls) \<Longrightarrow> calls = cands"
  by (induction cands arbitrary: this this' calls)
     (auto simp: tryServices.simps(2) Let_def split: outcome.splits jsvalue.splits prod.splits if_splits)

lemma tryServices_all_fail:
  "\<forall>svc\<in>set cands. \<not> attemptSucceeds (translator svc text src tgt) \<Longrightarrow>
   tryServices text src tgt cands this = (r, this', calls) \<Longrightarrow> r = None"
  by (induction cands arbitrary: this r this' calls)
     (auto simp: tryServices.simps(2) Let_def attemptSucceeds_def split: outcome.splits jsvalue.splits prod.splits if_splits)

lemma tryServices_calls:
  "tryServices text src tgt cands this = (r, this', calls) \<Longrightarrow>
   calls = takeWhile (\<lambda>svc. \<not> attemptSucceeds (translator svc text src tgt)) cands @
           take 1 (dropWhile (\<lambda>svc. \<not> attemptSucceeds (translator svc text src tgt)) cands)"
proof (induction cands arbitrary: this r this' calls)
  case Nil
  then show ?case by simp
next
  case (Cons h rest)
  show ?case
  proof (cases rule: tryServices_unfold [of h "text" src tgt rest "this"])
    case (stop result t)
    then have "attemptSucceeds (translator h text src tgt)"
      by (simp add: attemptSucceeds_Returned)
    with stop Cons.prems show ?thesis by auto
  next
    case (continue r2 this2 calls2)
    with Cons.prems have "calls = h # calls2" by simp
    with Cons.IH [OF continue(2)] continue(1) show ?thesis by simp
  qed
qed

lemma catchBlock_services [simp]: "services (catchBlock svc msg this) = services this"
  by (simp add: catchBlock_def Let_def)

lemma catchBlock_ui:
  "\<exists>new. uiEntries (catchBlock svc msg this) = uiEntries this @ new
     \<and> (\<forall>e\<in>set new. service e = Some (name svc))"
  by (simp add: catchBlock_def Let_def)

lemma failedAttempt_ui:
  "\<exists>new. uiEntries (failedAttempt svc out this) = uiEntries this @ new
     \<and> (\<forall>e\<in>set new. service e = Some (name svc))"
  using catchBlock_ui [of svc _ this]
  by (auto simp: failedAttempt_def split: outcome.splits jsvalue.splits)

lemma failedAttempt_failed_other:
  "n \<noteq> name svc \<Longrightarrow>
   n \<in> set (failedServices (failedAttempt svc out this)) \<longleftrightarrow> n \<in> set (failedServices this)"
  by (auto simp: failedAttempt_def catchBlock_def Let_def set_add_def
      split: outcome.splits jsvalue.splits if_splits)

lemma failedAttempt_limit:
  assumes "str_includes msg (ascii ''429'') \<or> str_includes msg (ascii ''limit'')"
  shows "name svc \<in> set (failedServices (failedAttempt svc (Threw msg) this))"
    and "uiEntries (failedAttempt svc (Threw msg) this) =
           uiEntries this @
           [\<lparr>level = ERROR, service = Some (name svc), message = errorPrefix @ name svc,
             details = ErrorDetails msg\<rparr>, limitEntry svc]"
  using assms by (auto simp: failedAttempt_def catchBlock_def Let_def set_add_def limitEntry_def)

lemma failedAttempt_unsuccessful:
  "\<not> success result \<Longrightarrow> failedAttempt svc (Returned result) this = this"
  by (simp add: failedAttempt_def)

text \<open>What the loop appends to the UI, and how it changes the failure set.\<close>

lemma tryServices_ui:
  "tryServices text src tgt cands this = (r, this', calls) \<Longrightarrow>
   \<exists>new. uiEntries this' = uiEntries this @ new
     \<and> (\<forall>e\<in>set new. \<exists>p\<in>set cands. service e = Some (name p))"
proof (induction cands arbitrary: this r this' calls)
  case Nil
  then show ?case by simp
next
  case (Cons svc rest)
  let ?out = "translator svc text src tgt"
  let ?this1 = "log INFO (attemptPrefix @ name svc) (Some (name svc)) NoDetails this"
  show ?case
  proof (cases "attemptSucceeds ?out")
    case True
    then show ?thesis
      using Cons.prems by (auto elim!: attemptSucceeds_cases simp: tryServices_success_step)
  next
    case False
    obtain r2 this2 calls2 where
      t: "tryServices text src tgt rest (failedAttempt svc ?out ?this1) = (r2, this2, calls2)"
      by (metis prod_cases3)
    with Cons.prems False have "this' = this2" by (simp add: tryServices_fail_step)
    moreover from Cons.IH [OF t] obtain new where
      "uiEntries this2 = uiEntries (failedAttempt svc ?out ?this1) @ new"
      "\<forall>e\<in>set new. \<exists>p\<in>set rest. service e = Some (name p)" by blast
    moreover obtain new0 where "uiEntries (failedAttempt svc ?out ?this1) = uiEntries ?this1 @ new0"
      "\<forall>e\<in>set new0. service e = Some (name svc)"
      using failedAttempt_ui by blast
    ultimately show ?thesis by auto
  qed
qed

lemma tryServices_failed_frame:
  "tryServices text src tgt cands this = (r, this', calls) \<Longrightarrow> n \<notin> name ` set cands \<Longrightarrow>
   n \<in> set (failedServices this') \<longleftrightarrow> n \<in> set (failedServices this)"
proof (induction cands arbitrary: this r this' calls)
  case Nil
  then show ?case by simp
next
  case (Cons svc rest)
  let ?out = "translator svc text src tgt"
  let ?this1 = "log INFO (attemptPrefix @ name svc) (Some (name svc)) NoDetails this"
  show ?case
  proof (cases "attemptSucceeds ?out")
    case True
    then show ?thesis
      using Cons.prems
      by (auto elim!: attemptSucceeds_cases simp: tryServices_success_step set_delete_def)
  next
    case False
    obtain r2 this2 calls2 where
      t: "tryServices text src tgt rest (failedAttempt svc ?out ?this1) = (r2, this2, calls2)"
      by (metis prod_cases3)
    with Cons.prems False have "this' = this2" by (simp add: tryServices_fail_step)
    moreover from Cons.IH [OF t] Cons.prems have
      "n \<in> set (failedServices this2) \<longleftrightarrow> n \<in> set (failedServices (failedAttempt svc ?out ?this1))"
      by simp
    moreover have "n \<in> set (failedServices (failedAttempt svc ?out ?this1)) \<longleftrightarrow> n \<in> set (failedServices this)"
      using Cons.prems(2) by (simp add: failedAttempt_failed_other)
    ultimately show ?thesis by simp
  qed
qed

lemma distinct_names_available:
  "distinct (map name (services this)) \<Longrightarrow> distinct (map name (availableServices this))"
  unfolding availableServices_def
  by (auto simp: distinct_map intro: inj_on_subset)

lemma tryServices_limit:
  assumes "distinct (map name cands)"
    and "tryServices text src tgt cands this = (r, this', calls)"
    and "svc \<in> set calls"
    and "translator svc text src tgt = Threw msg"
    and "str_includes msg (ascii ''429'') \<or> str_includes msg (ascii ''limit'')"
  shows "name svc \<in> set (failedServices this') \<and> limitEntry svc \<in> set (newEntries this this')"
  using assms(1,2,3)
proof (induction cands arbitrary: this r this' calls)
  case Nil
  then show ?case by simp
next
  case (Cons h rest)
  let ?this1 = "log INFO (attemptPrefix @ name h) (Some (name h)) NoDetails this"
  show ?case
  proof (cases rule: tryServices_unfold [of h "text" src tgt rest "this"])
    case (stop result t)
    with Cons.prems assms(4) show ?thesis by auto
  next
    case (continue r2 this2 calls2)
    let ?mid = "failedAttempt h (translator h text src tgt) ?this1"
    from continue Cons.prems have eq: "this' = this2" "calls = h # calls2" by simp_all
    obtain xs where xs: "uiEntries ?mid = uiEntries ?this1 @ xs"
      using failedAttempt_ui by blast
    obtain ys where ys: "uiEntries this2 = uiEntries ?mid @ ys"
      using tryServices_ui [OF continue(2)] by blast
    show ?thesis
    proof (cases "svc = h")
      case True
      with assms(4,5) have "name h \<in> set (failedServices ?mid)"
        and "uiEntries ?mid = uiEntries ?this1 @
               [\<lparr>level = ERROR, service = Some (name h), message = errorPrefix @ name h,
                 details = ErrorDetails msg\<rparr>, limitEntry h]"
        using failedAttempt_limit [of msg h ?this1] by simp_all
      moreover from Cons.prems(1) have "name h \<notin> name ` set rest" by auto
      ultimately have "name h \<in> set (failedServices this2)"
        and "limitEntry h \<in> set (newEntries this this2)"
        using tryServices_failed_frame [OF continue(2)] ys
        by (simp_all add: newEntries_def)
      with True eq show ?thesis by simp
    next
      case False
      with Cons.prems eq have "svc \<in> set calls2" by simp
      with Cons.IH [OF _ continue(2)] Cons.prems(1) have
        "name svc \<in> set (failedServices this2)" "limitEntry svc \<in> set (newEntries ?mid this2)"
        by simp_all
      with xs ys eq show ?thesis by (simp add: newEntries_def)
    qed
  qed
qed

lemma tryServices_first_success:
  assumes "tryServices text src tgt cands this = (r, this', calls)"
    and "svc \<in> set calls"
    and "translator svc text src tgt = Returned result"
    and "success result"
    and "text_r result = JString t"
  shows "r = Some result
       \<and> (\<exists>pre rest. cands = pre @ svc # rest \<and> calls = pre @ [svc])
       \<and> name svc \<notin> set (failedServices this')
       \<and> uiEntries this' \<noteq> [] \<and> last (uiEntries this') = successEntry svc (length t)"
  using assms(1,2)
proof (induction cands arbitrary: this r this' calls)
  case Nil
  then show ?case by simp
next
  case (Cons h rest)
  show ?case
  proof (cases rule: tryServices_unfold [of h "text" src tgt rest "this"])
    case (stop result' t')
    with Cons.prems have "svc = h" by auto
    with stop Cons.prems assms(3,5) show ?thesis
      by (auto simp: successEntry_def set_delete_def)
  next
    case (continue r2 this2 calls2)
    from continue Cons.prems have eq: "r = r2" "this' = this2" "calls = h # calls2" by simp_all
    from continue(1) assms(3,4,5) have "svc \<noteq> h"
      by (auto simp: attemptSucceeds_Returned)
    with Cons.prems eq have "svc \<in> set calls2" by simp
    from Cons.IH [OF continue(2) this] eq show ?thesis
      by (metis append_Cons)
  qed
qed

lemma tryServices_unsuccessful:
  assumes "distinct (map name cands)"
    and "tryServices text src tgt cands this = (r, this', calls)"
    and "svc \<in> set cands"
    and "translator svc text src tgt = Returned result"
    and "\<not> success result"
  shows "\<forall>e\<in>set (newEntries this this'). service e = Some (name svc) \<longrightarrow> level e = INFO"
  using assms(1,2,3)
proof (induction cands arbitrary: this r this' calls)
  case Nil
  then show ?case by simp
next
  case (Cons h rest)
  let ?this1 = "log INFO (attemptPrefix @ name h) (Some (name h)) NoDetails this"
  show ?case
  proof (cases rule: tryServices_unfold [of h "text" src tgt rest "this"])
    case (stop result' t')
    with assms(4,5) have "svc \<noteq> h" by auto
    with Cons.prems(1,3) have "name svc \<noteq> name h" by (auto simp: image_iff)
    with stop Cons.prems(2) show ?thesis by (auto simp: newEntries_def)
  next
    case (continue r2 this2 calls2)
    let ?mid = "failedAttempt h (translator h text src tgt) ?this1"
    from continue Cons.prems have eq: "this' = this2" by simp
    obtain xs where xs: "uiEntries ?mid = uiEntries ?this1 @ xs"
      "\<forall>e\<in>set xs. service e = Some (name h)"
      using failedAttempt_ui by blast
    obtain ys where ys: "uiEntries this2 = uiEntries ?mid @ ys"
      "\<forall>e\<in>set ys. \<exists>p\<in>set rest. service e = Some (name p)"
      using tryServices_ui [OF continue(2)] by blast
    have new: "newEntries this this' =
        \<lparr>level = INFO, service = Some (name h), message = attemptPrefix @ name h,
          details = NoDetails\<rparr> # xs @ ys"
      using xs(1) ys(1) eq by (simp add: newEntries_def)
    show ?thesis
    proof (cases "svc = h")
      case True
      with assms(4,5) have "?mid = ?this1" by (simp add: failedAttempt_unsuccessful)
      with xs(1) have "xs = []" by simp
      moreover from Cons.prems(1) True have "\<forall>p\<in>set rest. name p \<noteq> name svc"
        by (fastforce simp: image_iff)
      ultimately show ?thesis using new ys(2) by auto
    next
      case False
      with Cons.prems have in_rest: "svc \<in> set rest" and ne: "name svc \<noteq> name h"
        by (fastforce simp: image_iff)+
      from Cons.IH [OF _ continue(2) in_rest] Cons.prems(1)
      have "\<forall>e\<in>set (newEntries ?mid this2). service e = Some (name svc) \<longrightarrow> level e = INFO"
        by simp
      moreover from ys(1) have "newEntries ?mid this2 = ys" by (simp add: newEntries_def)
      ultimately show ?thesis using new xs(2) ne by auto
    qed
  qed
qed

lemma tryServices_unsuccessful_failed:
  assumes "distinct (map name cands)"
    and "tryServices text src tgt cands this = (r, this', calls)"
    and "svc \<in> set cands"
    and "translator svc text src tgt = Returned result"
    and "\<not> success result"
  shows "name svc \<in> set (failedServices this') \<longleftrightarrow> name svc \<in> set (failedServices this)"
  using assms(1,2,3)
proof (induction cands arbitrary: this r this' calls)
  case Nil
  then show ?case by simp
next
  case (Cons h rest)
  let ?this1 = "log INFO (attemptPrefix @ name h) (Some (name h)) NoDetails this"
  show ?case
  proof (cases rule: tryServices_unfold [of h "text" src tgt rest "this"])
    case (stop result' t')
    with assms(4,5) have "svc \<noteq> h" by auto
    with Cons.prems(1,3) have "name svc \<noteq> name h" by (fastforce simp: image_iff)
    with stop Cons.prems(2) show ?thesis by (auto simp: set_delete_def)
  next
    case (continue r2 this2 calls2)
    let ?mid = "failedAttempt h (translator h text src tgt) ?this1"
    from continue Cons.prems have eq: "this' = this2" by simp
    show ?thesis
    proof (cases "svc = h")
      case True
      with assms(4,5) have "?mid = ?this1" by (simp add: failedAttempt_unsuccessful)
      moreover from Cons.prems(1) True have "name svc \<notin> name ` set rest" by auto
      ultimately show ?thesis
        using tryServices_failed_frame [OF continue(2)] eq by simp
    next
      case False
      with Cons.prems have in_rest: "svc \<in> set rest" and ne: "name svc \<noteq> name h"
        by (fastforce simp: image_iff)+
      from Cons.IH [OF _ continue(2) in_rest] Cons.prems(1)
      have "name svc \<in> set (failedServices this2) \<longleftrightarrow> name svc \<in> set (failedServices ?mid)"
        by simp
      with ne eq show ?thesis by (simp add: failedAttempt_failed_other)
    qed
  qed
qed

section \<open>The call as a whole\<close>

lemma started_fields [simp]:
  "services (started this text src tgt) = services this"
  "failedServices (started this text src tgt) = failedServices this"
  "availableServices (started this text src tgt) = availableServices this"
  by (simp_all add: started_def Let_def)

lemma started_ui:
  "\<exists>e1 e2. uiEntries (started this text src tgt) = uiEntries this @ [e1, e2]
     \<and> service e1 = None \<and> service e2 = None \<and> level e1 = INFO \<and> level e2 = INFO"
  by (simp add: started_def Let_def)

lemma translateText_cases:
  obtains
    (empty) "trim text = []"
      "translateText this text src tgt =
         (\<lparr>success = False, text_r = JString [], service_r = None\<rparr>,
          log WARN emptyTextMsg None NoDetails this, [])"
  | (none) "trim text \<noteq> []" "availableServices this = []"
      "translateText this text src tgt =
         (backupResult text,
          log WARN backupMsg (Some (ascii ''Backup'')) NoDetails
            (log ERROR noServicesMsg None NoDetails (started this text src tgt)),
          [])"
  | (found) result this3 calls where "trim text \<noteq> []"
      "tryServices text src tgt (availableServices this) (started this text src tgt)
         = (Some result, this3, calls)"
      "translateText this text src tgt = (result, this3, calls)"
  | (exhausted) this3 where "trim text \<noteq> []"
      "tryServices text src tgt (availableServices this) (started this text src tgt)
         = (None, this3, availableServices this)"
      "translateText this text src tgt =
         (backupResult text,
          log WARN backupMsg (Some (ascii ''Backup'')) NoDetails
            (log ERROR allFailedMsg None (FailedDetails (failedServices this3)) this3),
          availableServices this)"
proof (cases "trim text = []")
  case True
  then show ?thesis by (intro empty) (simp_all add: translateText_def)
next
  case ne: False
  show ?thesis
  proof (cases "availableServices this = []")
    case True
    with ne show ?thesis
      by (intro none)
         (simp_all add: translateText_def started_def Let_def useBackupTranslation_def
            backupResult_def)
  next
    case False
    obtain r this3 calls where
      t: "tryServices text src tgt (availableServices this) (started this text src tgt)
            = (r, this3, calls)"
      by (metis prod_cases3)
    show ?thesis
    proof (cases r)
      case None
      with t have "calls = availableServices this" by (simp add: tryServices_None_calls)
      with None t ne False show ?thesis
        by (intro exhausted [of this3])
           (simp_all add: translateText_def started_def Let_def useBackupTranslation_def
              backupResult_def)
    next
      case (Some result)
      with t ne False show ?thesis
        by (intro found [of result this3 calls])
           (simp_all add: translateText_def started_def Let_def)
    qed
  qed
qed

lemma translateText_nonblank:
  assumes "trim text \<noteq> []"
  shows "translateText this text src tgt =
     (case tryServices text src tgt (availableServices this) (started this text src tgt) of
        (Some result, this3, calls) \<Rightarrow> (result, this3, calls)
      | (None, this3, calls) \<Rightarrow>
          (backupResult text,
           log WARN backupMsg (Some (ascii ''Backup'')) NoDetails
             (log ERROR (if availableServices this = [] then noServicesMsg else allFailedMsg) None
                (if availableServices this = [] then NoDetails
                 else FailedDetails (failedServices this3)) this3),
           calls))"
  using assms
  by (cases "availableServices this = []")
     (simp_all add: translateText_def started_def Let_def useBackupTranslation_def backupResult_def
        split: prod.splits option.splits)

lemma translateText_all_fail:
  assumes "trim text \<noteq> []"
    and "\<forall>svc\<in>set (availableServices this). \<not> attemptSucceeds (translator svc text src tgt)"
  shows "fst (translateText this text src tgt) = backupResult text"
    and "snd (snd (translateText this text src tgt)) = availableServices this"
    and "uiEntries (fst (snd (translateText this text src tgt))) \<noteq> []"
    and "last (uiEntries (fst (snd (translateText this text src tgt)))) = backupEntry"
proof -
  have "fst (translateText this text src tgt) = backupResult text
      \<and> snd (snd (translateText this text src tgt)) = availableServices this
      \<and> uiEntries (fst (snd (translateText this text src tgt))) \<noteq> []
      \<and> last (uiEntries (fst (snd (translateText this text src tgt)))) = backupEntry"
  proof (cases rule: translateText_cases [of "text" "this" src tgt])
    case empty
    with assms(1) show ?thesis by simp
  next
    case none
    then show ?thesis by (simp add: backupEntry_def)
  next
    case (found result this3 calls)
    with assms(2) show ?thesis using tryServices_all_fail by blast
  next
    case (exhausted this3)
    then show ?thesis by (simp add: backupEntry_def)
  qed
  then show "fst (translateText this text src tgt) = backupResult text"
    and "snd (snd (translateText this text src tgt)) = availableServices this"
    and "uiEntries (fst (snd (translateText this text src tgt))) \<noteq> []"
    and "last (uiEntries (fst (snd (translateText this text src tgt)))) = backupEntry"
    by simp_all
qed

lemma translateText_calls_prefix:
  "prefix (snd (snd (translateText this text src tgt))) (availableServices this)"
proof (cases rule: translateText_cases [of "text" "this" src tgt])
  case (found result this3 calls)
  then show ?thesis using tryServices_calls_prefix by fastforce
qed simp_all

lemma translateText_calls:
  assumes "trim text \<noteq> []"
  shows "snd (snd (translateText this text src tgt)) =
     takeWhile (\<lambda>svc. \<not> attemptSucceeds (translator svc text src tgt)) (availableServices this) @
     take 1 (dropWhile (\<lambda>svc. \<not> attemptSucceeds (translator svc text src tgt))
               (availableServices this))"
proof (cases rule: translateText_cases [of "text" "this" src tgt])
  case empty
  with assms show ?thesis by simp
next
  case none
  then show ?thesis by simp
next
  case (found result this3 calls)
  with tryServices_calls [OF found(2)] show ?thesis by simp
next
  case (exhausted this3)
  with tryServices_calls [OF exhausted(2)] show ?thesis by simp
qed

lemma newEntries_trans:
  "uiEntries b = uiEntries a @ xs \<Longrightarrow> uiEntries c = uiEntries b @ ys \<Longrightarrow>
   newEntries a c = xs @ newEntries b c"
  by (simp add: newEntries_def)

section \<open>Whole-word replacement\<close>

lemma upper_range:
  "0x61 \<le> (k::jschar) \<Longrightarrow> k \<le> 0x7A \<Longrightarrow> 0x41 \<le> k - 0x20 \<and> k - 0x20 \<le> 0x5A"
  by unat_arith

lemma canon_letter:
  "0x61 \<le> k \<Longrightarrow> k \<le> 0x7A \<Longrightarrow> canonicalize c = canonicalize k \<Longrightarrow> isWordChar c"
  using upper_range [of k] upper_range [of c]
  by (auto simp: canonicalize_def isWordChar_def split: if_splits)

lemma dict_keys: "\<forall>(word, val)\<in>set backupDict. isKey word \<and> (\<forall>c\<in>set val. \<not> isWordChar c)"
  by code_simp

lemma dict_isKey: "\<forall>(word, val)\<in>set backupDict. isKey word"
  using dict_keys by auto

declare replaceFrom.simps [simp del]

lemma ci_word_chars:
  assumes "isKey word" and "map canonicalize t = map canonicalize word"
  shows "\<forall>c\<in>set t. isWordChar c"
proof
  fix c assume "c \<in> set t"
  then obtain j where j: "j < length t" "t ! j = c" by (auto simp: in_set_conv_nth)
  from assms(2) have len: "length t = length word" by (rule map_eq_imp_length_eq)
  from assms(2) j len have "canonicalize c = canonicalize (word ! j)"
    by (metis nth_map)
  moreover from assms(1) j len have "0x61 \<le> word ! j \<and> word ! j \<le> 0x7A"
    by (simp add: isKey_def)
  ultimately show "isWordChar c" by (blast intro: canon_letter)
qed

lemma isKey_length: "isKey word \<Longrightarrow> \<exists>m. length word = Suc m"
  by (cases word) (auto simp: isKey_def)

lemma matchesAt_wholeWordAt:
  assumes "isKey word"
  shows "matchesAt word s i = wholeWordAt word s i"
proof (cases "i + length word \<le> length s \<and>
    map canonicalize (take (length word) (drop i s)) = map canonicalize word")
  case False
  then show ?thesis by (auto simp: matchesAt_def wholeWordAt_def)
next
  case True
  from assms obtain m where m: "length word = Suc m"
    by (cases word) (auto simp: isKey_def)
  let ?t = "take (Suc m) (drop i s)"
  from True assms m have w: "\<forall>c\<in>set ?t. isWordChar c"
    using ci_word_chars by metis
  from True m have le: "Suc (i + m) \<le> length s" by simp
  then have len: "length ?t = Suc m" by simp
  from le have "?t ! 0 = s ! i" "?t ! m = s ! (i + m)"
    by simp_all
  moreover from len have "?t ! 0 \<in> set ?t" "?t ! m \<in> set ?t"
    by (metis nth_mem zero_less_Suc, metis nth_mem lessI)
  ultimately have "isWordChar (s ! i)" "isWordChar (s ! (i + m))"
    using w by metis+
  with le m show ?thesis
    by (auto simp: matchesAt_def wholeWordAt_def wordBoundary_def)
qed

lemma matchesAt_bound: "word \<noteq> [] \<Longrightarrow> matchesAt word s i \<Longrightarrow> i < length s"
  by (cases word) (auto simp: matchesAt_def)

lemma wholeWordAt_bound: "isKey word \<Longrightarrow> wholeWordAt word s i \<Longrightarrow> i < length s"
  using isKey_length [of word] by (auto simp: wholeWordAt_def)

lemma replaceFrom_no_match:
  "word \<noteq> [] \<Longrightarrow> \<forall>j. i \<le> j \<and> j < length s \<longrightarrow> \<not> matchesAt word s j \<Longrightarrow>
   replaceFrom word val s i = drop i s"
proof (induction word val s i rule: replaceFrom.induct)
  case (1 word val s i)
  show ?case
  proof (cases "i < length s")
    case True
    with 1 have "\<not> matchesAt word s i" by simp
    moreover from this True 1 have "replaceFrom word val s (i + 1) = drop (i + 1) s" by simp
    ultimately show ?thesis
      using True by (simp add: replaceFrom.simps [of word val s i] Cons_nth_drop_Suc)
  next
    case False
    with 1(4) have "\<not> matchesAt word s i" using matchesAt_bound by blast 
    with False show ?thesis by (simp add: replaceFrom.simps [of word val s i])
  qed
qed

lemma replaceFrom_end: "word \<noteq> [] \<Longrightarrow> length s \<le> i \<Longrightarrow> replaceFrom word val s i = []"
  using matchesAt_bound [of word s i] by (auto simp: replaceFrom.simps [of word val s i])

lemma wholeWordAt_append_left:
  assumes "isKey word" and "\<not> isWordChar c" and "i \<le> length a"
  shows "wholeWordAt word (a @ c # b) i = wholeWordAt word a i"
proof -
  from assms(1) obtain m where m: "length word = Suc m" using isKey_length by blast
  show ?thesis
  proof (cases "i + Suc m \<le> length a")
    case True
    then show ?thesis
      using m assms(2) by (auto simp: wholeWordAt_def nth_append)
  next
    case False
    have "\<not> wholeWordAt word (a @ c # b) i"
    proof
      assume h: "wholeWordAt word (a @ c # b) i"
      let ?t = "take (Suc m) (drop i (a @ c # b))"
      from h m have "map canonicalize ?t = map canonicalize word"
        and le: "i + Suc m \<le> length (a @ c # b)"
        by (simp_all add: wholeWordAt_def)
      with assms(1) have w: "\<forall>x\<in>set ?t. isWordChar x" using ci_word_chars by blast
      from False assms(3) le have "length a - i < length ?t" by simp
      moreover from False assms(3) le have "?t ! (length a - i) = c"
        by (simp add: nth_append)
      ultimately have "c \<in> set ?t" by (metis nth_mem)
      with w assms(2) show False by blast
    qed
    moreover from False m have "\<not> wholeWordAt word a i" by (simp add: wholeWordAt_def)
    ultimately show ?thesis by simp
  qed
qed

lemma wholeWordAt_append_right:
  assumes "\<not> isWordChar c"
  shows "wholeWordAt word (a @ c # b) (Suc (length a + j)) = wholeWordAt word b j"
  using assms by (cases j) (auto simp: wholeWordAt_def nth_append)

lemma replaceFrom_append_right:
  assumes "isKey word" and "\<not> isWordChar c"
  shows "replaceFrom word val (a @ c # b) (Suc (length a + j)) = replaceFrom word val b j"
  using assms
proof (induction word val b j rule: replaceFrom.induct)
  case (1 word val s i)
  from 1(4) have ne: "word \<noteq> []" by (auto simp: isKey_def)
  have eq: "matchesAt word (a @ c # s) (Suc (length a + i)) = matchesAt word s i"
    unfolding matchesAt_wholeWordAt [OF 1(4)] by (rule wholeWordAt_append_right [OF 1(5)])
  show ?case
  proof (cases "matchesAt word s i")
    case True
    with 1(2) [OF True ne] 1(4,5) have
      "replaceFrom word val (a @ c # s) (Suc (length a + (i + length word))) = replaceFrom word val s (i + length word)"
      by simp
    with True eq ne show ?thesis
      by (simp add: replaceFrom.simps [of word val s i]
          replaceFrom.simps [of word val "a @ c # s" "Suc (length a + i)"] add.assoc)
  next
    case False
    show ?thesis
    proof (cases "i < length s")
      case True
      with 1(3) [OF False True] 1(4,5) have
        "replaceFrom word val (a @ c # s) (Suc (length a + (i + 1))) = replaceFrom word val s (i + 1)"
        by simp
      with True False eq show ?thesis
        by (simp add: replaceFrom.simps [of word val s i]
            replaceFrom.simps [of word val "a @ c # s" "Suc (length a + i)"] nth_append)
    next
      case nlt: False
      with False eq show ?thesis
        by (simp add: replaceFrom.simps [of word val s i]
            replaceFrom.simps [of word val "a @ c # s" "Suc (length a + i)"])
    qed
  qed
qed

lemma replaceFrom_append_left:
  assumes "isKey word" and "\<not> isWordChar c" and "i \<le> length a"
  shows "replaceFrom word val (a @ c # b) i =
         replaceFrom word val a i @ c # replaceFrom word val (a @ c # b) (Suc (length a))"
  using assms
proof (induction word val a i rule: replaceFrom.induct)
  case (1 word val s i)
  from 1(4) have ne: "word \<noteq> []" by (auto simp: isKey_def)
  have eq: "matchesAt word (s @ c # b) i = matchesAt word s i"
    unfolding matchesAt_wholeWordAt [OF 1(4)] by (rule wholeWordAt_append_left [OF 1(4,5,6)])
  show ?case
  proof (cases "matchesAt word s i")
    case True
    then have "i + length word \<le> length s" by (simp add: matchesAt_def)
    with 1(2) [OF True ne] 1(4,5) have
      "replaceFrom word val (s @ c # b) (i + length word) =
       replaceFrom word val s (i + length word) @ c # replaceFrom word val (s @ c # b) (Suc (length s))"
      by simp
    with True eq ne show ?thesis
      by (simp add: replaceFrom.simps [of word val s i]
          replaceFrom.simps [of word val "s @ c # b" i])
  next
    case False
    show ?thesis
    proof (cases "i < length s")
      case True
      with 1(3) [OF False True] 1(4,5) have
        "replaceFrom word val (s @ c # b) (i + 1) =
         replaceFrom word val s (i + 1) @ c # replaceFrom word val (s @ c # b) (Suc (length s))"
        by simp
      with True False eq show ?thesis
        by (simp add: replaceFrom.simps [of word val s i]
            replaceFrom.simps [of word val "s @ c # b" i] nth_append)
    next
      case nlt: False
      with 1(6) have "i = length s" by simp
      with False eq show ?thesis
        by (simp add: replaceFrom.simps [of word val s "length s"]
            replaceFrom.simps [of word val "s @ c # b" "length s"])
    qed
  qed
qed

lemma replace_split:
  assumes "isKey word" and "\<not> isWordChar c"
  shows "replace word val (a @ c # b) = replace word val a @ c # replace word val b"
proof -
  have "replaceFrom word val (a @ c # b) (Suc (length a)) = replaceFrom word val b 0"
    using replaceFrom_append_right [OF assms, of val a b 0] by simp
  with replaceFrom_append_left [OF assms, of 0 a val b] show ?thesis
    by (simp add: replace_def)
qed

lemma replace_no_match:
  assumes "word \<noteq> []" and "\<forall>j<length s. \<not> matchesAt word s j"
  shows "replace word val s = s"
  using replaceFrom_no_match [of word 0 s val] assms by (simp add: replace_def)

lemma replace_token:
  assumes "isKey word" and "\<forall>x\<in>set w. isWordChar x"
  shows "replace word val w = (if map canonicalize w = map canonicalize word then val else w)"
proof -
  from assms(1) have ne: "word \<noteq> []" by (auto simp: isKey_def)
  have inner: "\<not> matchesAt word w j" if "0 < j" "j < length w" for j
    using that assms(2) by (auto simp: matchesAt_def wordBoundary_def)
  have first: "matchesAt word w 0 \<longleftrightarrow> map canonicalize w = map canonicalize word"
  proof
    assume "matchesAt word w 0"
    then have h: "wholeWordAt word w 0" using assms(1) by (simp add: matchesAt_wholeWordAt)
    then have "length word \<le> length w"
      and "length word = length w \<or> \<not> isWordChar (w ! length word)"
      by (simp_all add: wholeWordAt_def)
    then have "length word = length w"
      using assms(2) by (cases "length word < length w") auto
    with h show "map canonicalize w = map canonicalize word" by (simp add: wholeWordAt_def)
  next
    assume e: "map canonicalize w = map canonicalize word"
    then have "length w = length word" by (rule map_eq_imp_length_eq)
    with e have "wholeWordAt word w 0" by (simp add: wholeWordAt_def)
    then show "matchesAt word w 0" using assms(1) by (simp add: matchesAt_wholeWordAt)
  qed
  show ?thesis
  proof (cases "map canonicalize w = map canonicalize word")
    case True
    then have "length w = length word" by (rule map_eq_imp_length_eq)
    with True first ne show ?thesis
      by (simp add: replace_def replaceFrom.simps [of word val w 0] replaceFrom_end)
  next
    case False
    with first inner have "\<forall>j<length w. \<not> matchesAt word w j"
      by (metis not_gr_zero)
    with False ne show ?thesis by (simp add: replace_no_match)
  qed
qed

lemma no_word_no_match:
  assumes "isKey word" and "\<forall>x\<in>set s. \<not> isWordChar x"
  shows "\<not> matchesAt word s j"
proof
  assume "matchesAt word s j"
  then have e: "map canonicalize (take (length word) (drop j s)) = map canonicalize word"
    by (simp add: matchesAt_def)
  with assms(1) have w: "\<forall>c\<in>set (take (length word) (drop j s)). isWordChar c"
    using ci_word_chars by blast
  from e have "length (take (length word) (drop j s)) = length word"
    by (rule map_eq_imp_length_eq)
  with assms(1) have "take (length word) (drop j s) \<noteq> []" by (auto simp: isKey_def)
  then obtain c where "c \<in> set (take (length word) (drop j s))" by (meson last_in_set)
  moreover from this have "c \<in> set s" by (meson in_set_takeD in_set_dropD)
  ultimately show False using w assms(2) by blast
qed

lemma fold_replace_split:
  assumes "\<forall>(word, val)\<in>set d. isKey word" and "\<not> isWordChar c"
  shows "fold (\<lambda>(word, val) t. replace word val t) d (a @ c # b) =
         fold (\<lambda>(word, val) t. replace word val t) d a @ c #
         fold (\<lambda>(word, val) t. replace word val t) d b"
  using assms by (induction d arbitrary: a b) (auto simp: replace_split)

lemma fold_replace_nonword:
  assumes "\<forall>(word, val)\<in>set d. isKey word" and "\<forall>x\<in>set s. \<not> isWordChar x"
  shows "fold (\<lambda>(word, val) t. replace word val t) d s = s"
  using assms
proof (induction d)
  case Nil
  then show ?case by simp
next
  case (Cons kv d)
  obtain word val where kv: "kv = (word, val)" by (cases kv)
  with Cons.prems have k: "isKey word" by simp
  then have "replace word val s = s"
    using no_word_no_match [OF k Cons.prems(2)] by (intro replace_no_match) (auto simp: isKey_def)
  with Cons kv show ?case by simp
qed

lemma fold_replace_token:
  assumes "\<forall>(word, val)\<in>set d. isKey word \<and> (\<forall>c\<in>set val. \<not> isWordChar c)"
    and "\<forall>x\<in>set w. isWordChar x"
  shows "fold (\<lambda>(word, val) t. replace word val t) d w =
         (case find (\<lambda>(word, val). map canonicalize w = map canonicalize word) d of
            None \<Rightarrow> w | Some (word, val) \<Rightarrow> val)"
  using assms
proof (induction d)
  case Nil
  then show ?case by simp
next
  case (Cons kv d)
  obtain word val where kv: "kv = (word, val)" by (cases kv)
  with Cons.prems have k: "isKey word" and v: "\<forall>c\<in>set val. \<not> isWordChar c"
    and d: "\<forall>(word, val)\<in>set d. isKey word" by auto
  show ?case
  proof (cases "map canonicalize w = map canonicalize word")
    case True
    with k Cons.prems(2) have "replace word val w = val" by (simp add: replace_token)
    with True kv fold_replace_nonword [OF d v] show ?thesis by simp
  next
    case False
    with k Cons.prems(2) have "replace word val w = w" by (simp add: replace_token)
    with False kv Cons show ?thesis by simp
  qed
qed

lemma fold_replace_no_whole_word:
  assumes "\<forall>(word, val)\<in>set d. isKey word \<and> \<not> containsWholeWord word s"
  shows "fold (\<lambda>(word, val) t. replace word val t) d s = s"
  using assms
proof (induction d)
  case Nil
  then show ?case by simp
next
  case (Cons kv d)
  obtain word val where kv: "kv = (word, val)" by (cases kv)
  with Cons.prems have k: "isKey word" and n: "\<not> containsWholeWord word s" by auto
  then have "replace word val s = s"
    by (intro replace_no_match) (auto simp: isKey_def matchesAt_wholeWordAt containsWholeWord_def)
  with Cons kv show ?case by simp
qed

lemma translated_token:
  "\<forall>x\<in>set w. isWordChar x \<Longrightarrow>
   find (\<lambda>(word, val). map canonicalize w = map canonicalize word) backupDict = r \<Longrightarrow>
   translated w = (case r of None \<Rightarrow> w | Some (word, val) \<Rightarrow> val)"
  unfolding translated_def using fold_replace_token [OF dict_keys] by blast

lemma translated_split:
  "\<not> isWordChar c \<Longrightarrow> translated (a @ c # b) = translated a @ c # translated b"
  unfolding translated_def using fold_replace_split [OF dict_isKey] by blast

lemma containsWholeWord_token:
  assumes "isKey word" and "\<forall>x\<in>set w. isWordChar x"
  shows "containsWholeWord word w \<longleftrightarrow> map canonicalize w = map canonicalize word"
proof
  assume "containsWholeWord word w"
  then obtain i where i: "i < length w" "wholeWordAt word w i"
    by (auto simp: containsWholeWord_def)
  from i assms(2) have "i = 0" by (cases i) (auto simp: wholeWordAt_def)
  with i have "length word \<le> length w"
    and "length word = length w \<or> \<not> isWordChar (w ! length word)"
    and e: "map canonicalize (take (length word) w) = map canonicalize word"
    by (simp_all add: wholeWordAt_def)
  then have "length word = length w"
    using assms(2) by (cases "length word < length w") auto
  with e show "map canonicalize w = map canonicalize word" by simp
next
  assume e: "map canonicalize w = map canonicalize word"
  then have l: "length w = length word" by (rule map_eq_imp_length_eq)
  with e have "wholeWordAt word w 0" by (simp add: wholeWordAt_def)
  moreover from l assms(1) have "0 < length w" using isKey_length [of word] by auto
  ultimately show "containsWholeWord word w" by (auto simp: containsWholeWord_def)
qed

lemma containsWholeWord_split:
  assumes "isKey word" and "\<not> isWordChar c"
  shows "containsWholeWord word (a @ c # b) \<longleftrightarrow>
         containsWholeWord word a \<or> containsWholeWord word b"
proof
  assume "containsWholeWord word (a @ c # b)"
  then obtain i where i: "wholeWordAt word (a @ c # b) i"
    by (auto simp: containsWholeWord_def)
  show "containsWholeWord word a \<or> containsWholeWord word b"
  proof (cases "i \<le> length a")
    case True
    with i assms have "wholeWordAt word a i" by (simp add: wholeWordAt_append_left)
    with assms(1) show ?thesis
      using wholeWordAt_bound by (auto simp: containsWholeWord_def)
  next
    case False
    then obtain j where "i = Suc (length a + j)" by (metis Suc_leI not_le le_Suc_ex add_Suc)
    with i assms(2) have "wholeWordAt word b j" by (simp add: wholeWordAt_append_right)
    with assms(1) show ?thesis
      using wholeWordAt_bound by (auto simp: containsWholeWord_def)
  qed
next
  assume "containsWholeWord word a \<or> containsWholeWord word b"
  then show "containsWholeWord word (a @ c # b)"
  proof
    assume "containsWholeWord word a"
    then obtain i where "i < length a" "wholeWordAt word a i"
      by (auto simp: containsWholeWord_def)
    with assms have "wholeWordAt word (a @ c # b) i" "i < length (a @ c # b)"
      by (simp_all add: wholeWordAt_append_left)
    then show ?thesis unfolding containsWholeWord_def by (meson atLeastLessThan_iff le0)
  next
    assume "containsWholeWord word b"
    then obtain j where "j < length b" "wholeWordAt word b j"
      by (auto simp: containsWholeWord_def)
    with assms(2) have "wholeWordAt word (a @ c # b) (Suc (length a + j))"
      "Suc (length a + j) < length (a @ c # b)"
      by (simp_all add: wholeWordAt_append_right)
    then show ?thesis unfolding containsWholeWord_def by (meson atLeastLessThan_iff le0)
  qed
qed

lemma single_token_no_key:
  assumes "isKey word" and "\<forall>c\<in>set s. isLetter c" and "\<exists>c\<in>set s. \<not> isWordChar c"
  shows "\<not> standsAloneAt word s i"
proof
  assume h: "standsAloneAt word s i"
  from assms(1) obtain m where m: "length word = Suc m" using isKey_length by blast
  from h m have le: "i + Suc m \<le> length s"
    and e: "map canonicalize (take (Suc m) (drop i s)) = map canonicalize word"
    and before: "i = 0 \<or> \<not> isLetter (s ! (i - 1))"
    and after: "i + Suc m = length s \<or> \<not> isLetter (s ! (i + Suc m))"
    by (simp_all add: standsAloneAt_def)
  have nth: "isLetter (s ! j)" if "j < length s" for j
    using that assms(2) by simp
  from before le nth [of "i - 1"] have i: "i = 0" by (cases i) auto
  from after le nth [of "i + Suc m"] have "i + Suc m = length s"
    by (cases "i + Suc m < length s") auto
  with i e have "map canonicalize s = map canonicalize word" by simp
  with assms(1) have "\<forall>c\<in>set s. isWordChar c" by (rule ci_word_chars)
  with assms(3) show False by blast
qed

lemma single_token_no_keys:
  assumes "\<forall>c\<in>set s. isLetter c" and "\<exists>c\<in>set s. \<not> isWordChar c"
  shows "\<not> containsKeyAsWord s"
  using single_token_no_key [OF _ assms] dict_isKey
  unfolding containsKeyAsWord_def by blast

section \<open>Example runs\<close>

lemma rateLimited_fails [simp]: "\<not> attemptSucceeds (rateLimited text src tgt)"
  by (simp add: rateLimited_def constantTranslator_def)

lemma rateLimited_marker:
  "str_includes (ascii ''MyMemory failed: 429 - Rate limit exceeded'') (ascii ''429'')"
  by code_simp

lemma hello_world_not_blank: "trim (ascii ''hello world'') \<noteq> []"
  by (simp add: trim_empty ascii_def isWhiteSpace_def)

lemma available_new:
  "availableServices (newTranslationService a b c d) = services (newTranslationService a b c d)"
  by (simp add: availableServices_def newTranslationService_def)

lemma secondAnswers_loop:
  "tryServices text src tgt (services secondAnswers) this =
     (Some greeting,
      (log SUCCESS (successPrefix @ ascii ''LibreTranslate'') (Some (ascii ''LibreTranslate''))
         (SuccessDetails 6)
         (log INFO (attemptPrefix @ ascii ''LibreTranslate'') (Some (ascii ''LibreTranslate''))
            NoDetails
            (log ERROR (errorPrefix @ ascii ''MyMemory'') (Some (ascii ''MyMemory''))
               (ErrorDetails (typeErrorMsg Undefined))
               (log INFO (attemptPrefix @ ascii ''MyMemory'') (Some (ascii ''MyMemory''))
                  NoDetails this))))
        \<lparr>failedServices := set_delete (ascii ''LibreTranslate'') (failedServices this)\<rparr>,
      [services secondAnswers ! 0, services secondAnswers ! 1])"
proof -
  let ?mm = "services secondAnswers ! 0" and ?lt = "services secondAnswers ! 1"
  let ?rest = "drop 2 (services secondAnswers)"
  have sv: "services secondAnswers = ?mm # ?lt # ?rest"
    by (simp add: secondAnswers_def newTranslationService_def)
  have n: "name ?mm = ascii ''MyMemory''" "name ?lt = ascii ''LibreTranslate''"
    by (simp_all add: secondAnswers_def newTranslationService_def)
  have o0: "translator ?mm text src tgt = Returned textless"
    and o1: "translator ?lt text src tgt = Returned greeting"
    by (simp_all add: secondAnswers_def newTranslationService_def constantTranslator_def)
  have f0: "\<not> attemptSucceeds (translator ?mm text src tgt)"
    by (simp add: o0 attemptSucceeds_def textless_def)
  have fa: "failedAttempt ?mm (Returned textless) s =
      log ERROR (errorPrefix @ name ?mm) (Some (name ?mm)) (ErrorDetails (typeErrorMsg Undefined)) s"
    for s
    by (simp add: failedAttempt_def textless_def catchBlock_def typeErrorMsg_no_marker)
  have s1: "success greeting"
    and x1: "text_r greeting = JString [0x43F, 0x440, 0x438, 0x432, 0x456, 0x442]"
    by (simp_all add: greeting_def)
  have "tryServices text src tgt (?mm # ?lt # ?rest) this =
     (Some greeting,
      (log SUCCESS (successPrefix @ name ?lt) (Some (name ?lt))
         (SuccessDetails (length [0x43F, 0x440, 0x438, 0x432, 0x456, 0x442 :: jschar]))
         (log INFO (attemptPrefix @ name ?lt) (Some (name ?lt)) NoDetails
            (log ERROR (errorPrefix @ name ?mm) (Some (name ?mm))
               (ErrorDetails (typeErrorMsg Undefined))
               (log INFO (attemptPrefix @ name ?mm) (Some (name ?mm)) NoDetails this))))
        \<lparr>failedServices := set_delete (name ?lt) (failedServices this)\<rparr>,
      [?mm, ?lt])"
    by (simp only: tryServices_fail_step [OF f0] o0 fa
          tryServices_success_step [OF o1 s1 x1] failedServices_log prod.case)
  then show ?thesis
    using sv n by (simp add: eval_nat_numeral)
qed

lemma secondAnswers_run:
  "translateText secondAnswers (ascii ''hello world'') (ascii ''en'') (ascii ''uk'') =
     (greeting,
      (log SUCCESS (successPrefix @ ascii ''LibreTranslate'') (Some (ascii ''LibreTranslate''))
         (SuccessDetails 6)
         (log INFO (attemptPrefix @ ascii ''LibreTranslate'') (Some (ascii ''LibreTranslate''))
            NoDetails
            (log ERROR (errorPrefix @ ascii ''MyMemory'') (Some (ascii ''MyMemory''))
               (ErrorDetails (typeErrorMsg Undefined))
               (log INFO (attemptPrefix @ ascii ''MyMemory'') (Some (ascii ''MyMemory''))
                  NoDetails (started secondAnswers (ascii ''hello world'') (ascii ''en'') (ascii ''uk''))))))
        \<lparr>failedServices := set_delete (ascii ''LibreTranslate'') (failedServices secondAnswers)\<rparr>,
      [services secondAnswers ! 0, services secondAnswers ! 1])"
proof -
  have a: "availableServices secondAnswers = services secondAnswers"
    by (simp add: secondAnswers_def available_new)
  show ?thesis
    by (simp only: translateText_nonblank [OF hello_world_not_blank] a secondAnswers_loop
          prod.case option.case started_fields)
qed

lemma secondAnswers_entries:
  "map level (newEntries secondAnswers
      (fst (snd (translateText secondAnswers (ascii ''hello world'') (ascii ''en'') (ascii ''uk'')))))
     = [INFO, INFO, INFO, ERROR, INFO, SUCCESS]"
  "map service (newEntries secondAnswers
      (fst (snd (translateText secondAnswers (ascii ''hello world'') (ascii ''en'') (ascii ''uk'')))))
     = [None, None, Some (ascii ''MyMemory''), Some (ascii ''MyMemory''),
        Some (ascii ''LibreTranslate''), Some (ascii ''LibreTranslate'')]"
proof -
  obtain e1 e2 where
    "uiEntries (started secondAnswers (ascii ''hello world'') (ascii ''en'') (ascii ''uk''))
       = uiEntries secondAnswers @ [e1, e2]"
    "service e1 = None" "service e2 = None" "level e1 = INFO" "level e2 = INFO"
    using started_ui by blast
  then show
    "map level (newEntries secondAnswers
      (fst (snd (translateText secondAnswers (ascii ''hello world'') (ascii ''en'') (ascii ''uk'')))))
     = [INFO, INFO, INFO, ERROR, INFO, SUCCESS]"
    "map service (newEntries secondAnswers
      (fst (snd (translateText secondAnswers (ascii ''hello world'') (ascii ''en'') (ascii ''uk'')))))
     = [None, None, Some (ascii ''MyMemory''), Some (ascii ''MyMemory''),
        Some (ascii ''LibreTranslate''), Some (ascii ''LibreTranslate'')]"
    by (simp_all add: secondAnswers_run newEntries_def)
qed

lemma translated_hello_world:
  "translated (ascii ''hello world'') =
     [0x43F, 0x440, 0x438, 0x432, 0x456, 0x442, 0x20, 0x441, 0x432, 0x456, 0x442]"
proof -
  have sp: "\<not> isWordChar 0x20" by (simp add: isWordChar_def)
  have 1: "translated (ascii ''hello'') = [0x43F, 0x440, 0x438, 0x432, 0x456, 0x442]"
    by (rule translated_token
          [where r = "Some (ascii ''hello'', [0x43F, 0x440, 0x438, 0x432, 0x456, 0x442])",
            simplified]) code_simp+
  have 2: "translated (ascii ''world'') = [0x441, 0x432, 0x456, 0x442]"
    by (rule translated_token
          [where r = "Some (ascii ''world'', [0x441, 0x432, 0x456, 0x442])", simplified])
       code_simp+
  have "ascii ''hello world'' = ascii ''hello'' @ 0x20 # ascii ''world''"
    by (simp add: ascii_def)
  then show ?thesis
    by (simp add: translated_split [OF sp] 1 2)
qed

lemma translated_this_is_a_test:
  "translated (ascii ''this is a test'') = ascii ''this '' @ [0x454] @ ascii '' a test''"
proof -
  have sp: "\<not> isWordChar 0x20" by (simp add: isWordChar_def)
  have 1: "translated (ascii ''this'') = ascii ''this''"
    by (rule translated_token [where r = None, simplified]) code_simp+
  have 2: "translated (ascii ''is'') = [0x454]"
    by (rule translated_token [where r = "Some (ascii ''is'', [0x454])", simplified]) code_simp+
  have 3: "translated (ascii ''a'') = ascii ''a''"
    by (rule translated_token [where r = None, simplified]) code_simp+
  have 4: "translated (ascii ''test'') = ascii ''test''"
    by (rule translated_token [where r = None, simplified]) code_simp+
  have "ascii ''this is a test'' =
      ascii ''this'' @ 0x20 # ascii ''is'' @ 0x20 # ascii ''a'' @ 0x20 # ascii ''test''"
    by (simp add: ascii_def)
  then show ?thesis
    by (simp add: translated_split [OF sp] 1 2 3 4) (simp add: ascii_def)
qed

lemma this_test_without_keys: "\<forall>(word, val)\<in>set backupDict. \<not> containsWholeWord word (ascii ''this test'')"
proof -
  have sp: "\<not> isWordChar 0x20" by (simp add: isWordChar_def)
  have s: "ascii ''this test'' = ascii ''this'' @ 0x20 # ascii ''test''"
    by (simp add: ascii_def)
  have w: "\<forall>x\<in>set (ascii ''this''). isWordChar x" "\<forall>x\<in>set (ascii ''test''). isWordChar x"
    by (simp_all add: ascii_def isWordChar_def)
  have n: "\<forall>(word, val)\<in>set backupDict.
      map canonicalize (ascii ''this'') \<noteq> map canonicalize word \<and>
      map canonicalize (ascii ''test'') \<noteq> map canonicalize word"
    by code_simp
  show ?thesis
  proof clarify
    fix word val
    assume m: "(word, val) \<in> set backupDict"
      and c: "containsWholeWord word (ascii ''this test'')"
    from m dict_isKey have k: "isKey word" by auto
    from m n have "map canonicalize (ascii ''this'') \<noteq> map canonicalize word"
      "map canonicalize (ascii ''test'') \<noteq> map canonicalize word" by auto
    with c show False
      unfolding s by (simp add: containsWholeWord_split [OF k sp] containsWholeWord_token [OF k] w)
  qed
qed

lemma noel_no_key: "\<not> containsKeyAsWord [0x4E, 0x6F, 0xEB, 0x6C]"
  by (rule single_token_no_keys) (simp_all add: isLetter_def isWordChar_def)

lemma prihello_no_key:
  "\<not> containsKeyAsWord [0x43F, 0x440, 0x438, 0x68, 0x65, 0x6C, 0x6C, 0x6F]"
  by (rule single_token_no_keys) (simp_all add: isLetter_def isWordChar_def)

lemma translated_noel:
  "translated [0x4E, 0x6F, 0xEB, 0x6C] = [0x43D, 0x456, 0xEB, 0x6C]"
proof -
  have c: "\<not> isWordChar 0xEB" by (simp add: isWordChar_def)
  have 1: "translated [0x4E, 0x6F] = [0x43D, 0x456]"
    by (rule translated_token [where r = "Some (ascii ''no'', [0x43D, 0x456])", simplified])
       code_simp+
  have 2: "translated [0x6C] = [0x6C]"
    by (rule translated_token [where r = None, simplified]) code_simp+
  have "translated ([0x4E, 0x6F] @ 0xEB # [0x6C]) = translated [0x4E, 0x6F] @ 0xEB # translated [0x6C]"
    by (rule translated_split [OF c])
  with 1 2 show ?thesis by simp
qed

lemma translated_empty: "translated [] = []"
  by (rule translated_token [where w = "[]" and r = None, simplified]) code_simp

lemma translated_prihello:
  "translated [0x43F, 0x440, 0x438, 0x68, 0x65, 0x6C, 0x6C, 0x6F] =
     [0x43F, 0x440, 0x438, 0x43F, 0x440, 0x438, 0x432, 0x456, 0x442]"
proof -
  have c: "\<not> isWordChar 0x43F" "\<not> isWordChar 0x440" "\<not> isWordChar 0x438"
    by (simp_all add: isWordChar_def)
  have h: "translated [0x68, 0x65, 0x6C, 0x6C, 0x6F] = [0x43F, 0x440, 0x438, 0x432, 0x456, 0x442]"
    by (rule translated_token
          [where r = "Some (ascii ''hello'', [0x43F, 0x440, 0x438, 0x432, 0x456, 0x442])",
            simplified]) code_simp+
  have "translated ([] @ 0x43F # ([] @ 0x440 # ([] @ 0x438 # [0x68, 0x65, 0x6C, 0x6C, 0x6F]))) =
      translated [] @ 0x43F # (translated [] @ 0x440 # (translated [] @ 0x438 #
        translated [0x68, 0x65, 0x6C, 0x6C, 0x6F]))"
    by (simp only: translated_split [OF c(1)] translated_split [OF c(2)] translated_split [OF c(3)])
  with h show ?thesis by (simp add: translated_empty)
qed

text \<open>
  A successful result whose text is a string ends the call: the call returns that very
  result, the last entry appended is the SUCCESS entry of the provider, the provider is
  not in the failure set afterwards, and no candidate after it is called.
\<close>

lemma success_with_text_returns:
  assumes "translateText this text sourceLang targetLang = (returned, this', calls)"
    and "svc \<in> set calls"
    and "translator svc text sourceLang targetLang = Returned result"
    and "success result"
    and "text_r result = JString t"
  shows "returned = result
       \<and> (\<exists>before after. availableServices this = before @ svc # after \<and> calls = before @ [svc])
       \<and> name svc \<notin> set (failedServices this')
       \<and> uiEntries this' \<noteq> [] \<and> last (uiEntries this') = successEntry svc (length t)"
proof (cases rule: translateText_cases [of "text" "this" sourceLang targetLang])
  case empty
  with assms(1,2) show ?thesis by simp
next
  case none
  with assms(1,2) show ?thesis by simp
next
  case (found result3 this3 calls3)
  with assms(1) have eq: "returned = result3" "this' = this3" "calls = calls3" by simp_all
  from tryServices_first_success [OF found(2) _ assms(3,4,5)] assms(2) eq
  show ?thesis by simp
next
  case (exhausted this3)
  with assms(1) have "calls = availableServices this" by simp
  with tryServices_first_success [OF exhausted(2) _ assms(3,4,5)] assms(2)
  show ?thesis by simp
qed

lemma success_with_text_example:
  "fst (translateText secondAnswers (ascii ''hello world'') (ascii ''en'') (ascii ''uk'')) = greeting
   \<and> ascii ''LibreTranslate'' \<notin> set (failedServices (fst (snd
        (translateText secondAnswers (ascii ''hello world'') (ascii ''en'') (ascii ''uk'')))))
   \<and> last (uiEntries (fst (snd
        (translateText secondAnswers (ascii ''hello world'') (ascii ''en'') (ascii ''uk'')))))
        = successEntry (services secondAnswers ! 1) 6"
proof -
  let ?run = "translateText secondAnswers (ascii ''hello world'') (ascii ''en'') (ascii ''uk'')"
  let ?p = "services secondAnswers ! 1"
  have t: "?run = (fst ?run, fst (snd ?run), snd (snd ?run))" by simp
  have m: "?p \<in> set (snd (snd ?run))" by (simp add: secondAnswers_run)
  have r: "translator ?p (ascii ''hello world'') (ascii ''en'') (ascii ''uk'') = Returned greeting"
    by (simp add: secondAnswers_def newTranslationService_def constantTranslator_def)
  have s: "success greeting" and x: "text_r greeting = JString [0x43F, 0x440, 0x438, 0x432, 0x456, 0x442]"
    by (simp_all add: greeting_def)
  have n: "name ?p = ascii ''LibreTranslate''"
    by (simp add: secondAnswers_def newTranslationService_def)
  from success_with_text_returns [OF t m r s x] n show ?thesis
    by (simp add: eval_nat_numeral)
qed

section \<open>The properties of the specification\<close>

text \<open>
  C1. The call always yields a result (the model is a total function: every error of a
  provider is handled inside the loop), and the result has \<open>success\<close> set exactly when
  the text has a character that is not white space.
\<close>

theorem translateText_succeeds:
  "success (fst (translateText this text sourceLang targetLang)) = (\<exists>c\<in>set text. \<not> isWhiteSpace c)"
proof (cases "trim text = []")
  case True
  then show ?thesis using trim_empty [of "text"] by (simp add: translateText_def)
next
  case False
  then have "\<exists>c\<in>set text. \<not> isWhiteSpace c" using trim_empty [of "text"] by blast
  moreover from False have "success (fst (translateText this text sourceLang targetLang))"
    by (auto simp: translateText_def Let_def useBackupTranslation_def
        split: prod.splits option.splits dest: tryServices_success)
  ultimately show ?thesis by simp
qed

theorem translateText_succeeds_witness:
  "success (fst (translateText
      (newTranslationService rateLimited rateLimited rateLimited rateLimited)
      (ascii ''hello world'') (ascii ''en'') (ascii ''uk'')))
   \<and> \<not> success (fst (translateText
      (newTranslationService rateLimited rateLimited rateLimited rateLimited)
      [0x20, 0x09] (ascii ''en'') (ascii ''uk'')))"
  using translateText_succeeds
      [of "newTranslationService rateLimited rateLimited rateLimited rateLimited"
        "ascii ''hello world''" "ascii ''en''" "ascii ''uk''"]
    translateText_succeeds
      [of "newTranslationService rateLimited rateLimited rateLimited rateLimited"
        "[0x20, 0x09]" "ascii ''en''" "ascii ''uk''"]
  by (simp add: ascii_def isWhiteSpace_def)

text \<open>
  C2. The names of the providers being unique: a provider whose translator is called
  and throws an error with \<^verbatim>\<open>429\<close> or \<^verbatim>\<open>limit\<close> in its message is in the failure set
  after the call, a WARN entry for it has been appended, and while the failure set stays
  as it is the provider is not a candidate and is not called.
\<close>

theorem rate_limit_excludes:
  assumes "distinct (map name (services this))"
    and "translateText this text sourceLang targetLang = (result, this', calls)"
    and "svc \<in> set calls"
    and "translator svc text sourceLang targetLang = Threw msg"
    and "str_includes msg (ascii ''429'') \<or> str_includes msg (ascii ''limit'')"
  shows "name svc \<in> set (failedServices this')
       \<and> limitEntry svc \<in> set (newEntries this this')
       \<and> (\<forall>later text2 source2 target2. failedServices later = failedServices this' \<longrightarrow>
            (\<forall>p\<in>set (availableServices later). name p \<noteq> name svc) \<and>
            (\<forall>p\<in>set (snd (snd (translateText later text2 source2 target2))).
               name p \<noteq> name svc))"
proof -
  have marked: "name svc \<in> set (failedServices this') \<and> limitEntry svc \<in> set (newEntries this this')"
  proof (cases rule: translateText_cases [of "text" "this" sourceLang targetLang])
    case empty
    with assms(2,3) show ?thesis by simp
  next
    case none
    with assms(2,3) show ?thesis by simp
  next
    case (found result3 this3 calls3)
    with assms(2) have eq: "this' = this3" "calls = calls3" by simp_all
    obtain e1 e2 where s: "uiEntries (started this text sourceLang targetLang) = uiEntries this @ [e1, e2]"
      using started_ui by blast
    obtain ys where ys: "uiEntries this3 = uiEntries (started this text sourceLang targetLang) @ ys"
      using tryServices_ui [OF found(2)] by blast
    from tryServices_limit [OF distinct_names_available [OF assms(1)] found(2) _ assms(4,5)]
      assms(3) eq
    have "name svc \<in> set (failedServices this3)"
      and "limitEntry svc \<in> set (newEntries (started this text sourceLang targetLang) this3)"
      by simp_all
    with eq newEntries_trans [OF s ys] show ?thesis by simp
  next
    case (exhausted this3)
    let ?final = "log WARN backupMsg (Some (ascii ''Backup'')) NoDetails
            (log ERROR allFailedMsg None (FailedDetails (failedServices this3)) this3)"
    from exhausted assms(2) have eq: "this' = ?final" "calls = availableServices this" by simp_all
    obtain e1 e2 where s: "uiEntries (started this text sourceLang targetLang) = uiEntries this @ [e1, e2]"
      using started_ui by blast
    obtain ys where ys: "uiEntries this3 = uiEntries (started this text sourceLang targetLang) @ ys"
      using tryServices_ui [OF exhausted(2)] by blast
    from tryServices_limit [OF distinct_names_available [OF assms(1)] exhausted(2) _ assms(4,5)]
      assms(3) eq
    have "name svc \<in> set (failedServices this3)"
      and "limitEntry svc \<in> set (newEntries (started this text sourceLang targetLang) this3)"
      by simp_all
    with ys have "name svc \<in> set (failedServices ?final)" and "limitEntry svc \<in> set ys"
      by (simp_all add: newEntries_def)
    moreover from s ys have "newEntries this ?final = [e1, e2] @ ys @
        [\<lparr>level = ERROR, service = None, message = allFailedMsg,
           details = FailedDetails (failedServices this3)\<rparr>,
         \<lparr>level = WARN, service = Some (ascii ''Backup''), message = backupMsg,
           details = NoDetails\<rparr>]"
      by (simp add: newEntries_def)
    ultimately show ?thesis using eq by simp
  qed
  have excluded: "\<forall>p\<in>set (availableServices later). name p \<noteq> name svc"
    if "failedServices later = failedServices this'" for later
    using that marked by (auto simp: availableServices_def)
  have "\<forall>p\<in>set (snd (snd (translateText later text2 source2 target2))). name p \<noteq> name svc"
    if "failedServices later = failedServices this'" for later text2 source2 target2
  proof -
    have "set (snd (snd (translateText later text2 source2 target2)))
        \<subseteq> set (availableServices later)"
      using translateText_calls_prefix by (rule set_mono_prefix)
    with excluded [OF that] show ?thesis by blast
  qed
  with marked excluded show ?thesis by blast
qed

theorem rate_limit_excludes_witness:
  "ascii ''MyMemory'' \<in> set (failedServices (fst (snd (translateText
      (newTranslationService rateLimited rateLimited rateLimited rateLimited)
      (ascii ''hello world'') (ascii ''en'') (ascii ''uk'')))))
   \<and> limitEntry (hd (services (newTranslationService rateLimited rateLimited rateLimited rateLimited)))
       \<in> set (newEntries (newTranslationService rateLimited rateLimited rateLimited rateLimited)
           (fst (snd (translateText
              (newTranslationService rateLimited rateLimited rateLimited rateLimited)
              (ascii ''hello world'') (ascii ''en'') (ascii ''uk'')))))
   \<and> hd (services (newTranslationService rateLimited rateLimited rateLimited rateLimited))
       \<notin> set (availableServices (fst (snd (translateText
              (newTranslationService rateLimited rateLimited rateLimited rateLimited)
              (ascii ''hello world'') (ascii ''en'') (ascii ''uk'')))))"
proof -
  let ?W = "newTranslationService rateLimited rateLimited rateLimited rateLimited"
  let ?run = "translateText ?W (ascii ''hello world'') (ascii ''en'') (ascii ''uk'')"
  let ?p = "hd (services ?W)"
  have d: "distinct (map name (services ?W))"
    by (simp add: newTranslationService_def ascii_def)
  have t: "?run = (fst ?run, fst (snd ?run), snd (snd ?run))" by simp
  have "\<forall>svc\<in>set (availableServices ?W).
          \<not> attemptSucceeds (translator svc (ascii ''hello world'') (ascii ''en'') (ascii ''uk''))"
    by (simp add: available_new) (simp add: newTranslationService_def)
  then have "snd (snd ?run) = availableServices ?W"
    using translateText_all_fail(2) [OF hello_world_not_blank] by blast
  then have m: "?p \<in> set (snd (snd ?run))"
    by (simp add: available_new) (simp add: newTranslationService_def)
  have thr: "translator ?p (ascii ''hello world'') (ascii ''en'') (ascii ''uk'') =
      Threw (ascii ''MyMemory failed: 429 - Rate limit exceeded'')"
    by (simp add: newTranslationService_def rateLimited_def constantTranslator_def)
  have inc: "str_includes (ascii ''MyMemory failed: 429 - Rate limit exceeded'') (ascii ''429'')
      \<or> str_includes (ascii ''MyMemory failed: 429 - Rate limit exceeded'') (ascii ''limit'')"
    using rateLimited_marker by simp
  have n: "name ?p = ascii ''MyMemory''" by (simp add: newTranslationService_def)
  from rate_limit_excludes [OF d t m thr inc]
  have "name ?p \<in> set (failedServices (fst (snd ?run)))"
    and "limitEntry ?p \<in> set (newEntries ?W (fst (snd ?run)))"
    and "\<forall>p\<in>set (availableServices (fst (snd ?run))). name p \<noteq> name ?p"
    by blast+
  with n show ?thesis by auto
qed

text \<open>
  C3. The candidate list holds exactly the enabled providers that are not marked as
  failed, in ascending order of priority, providers of equal priority in the order of
  their declaration. For a text that is not blank the translators are called in the
  order of the list, one after the other, up to and including the first whose attempt
  succeeds. With three enabled providers of priorities 2, 0 and 1 the one of priority 0
  is called first, the one of priority 1 after it has not succeeded, and the one of
  priority 2 after neither has.
\<close>

theorem candidate_list:
  "set (availableServices this) =
     {svc \<in> set (services this). enabled svc \<and> name svc \<notin> set (failedServices this)}
   \<and> sorted (map priority (availableServices this))
   \<and> (\<forall>p. filter (\<lambda>svc. priority svc = p) (availableServices this) =
            filter (\<lambda>svc. priority svc = p)
              (filter (\<lambda>svc. enabled svc \<and> name svc \<notin> set (failedServices this))
                 (services this)))
   \<and> prefix (snd (snd (translateText this text sourceLang targetLang))) (availableServices this)
   \<and> ((\<exists>u\<in>set text. \<not> isWhiteSpace u) \<longrightarrow>
        snd (snd (translateText this text sourceLang targetLang)) =
          takeWhile (\<lambda>svc. \<not> attemptSucceeds (translator svc text sourceLang targetLang))
            (availableServices this) @
          take 1 (dropWhile (\<lambda>svc. \<not> attemptSucceeds (translator svc text sourceLang targetLang))
                    (availableServices this)))
   \<and> (services this = [a, b, c] \<and> priority a = 2 \<and> priority b = 0 \<and> priority c = 1 \<and>
        (\<forall>svc\<in>{a, b, c}. enabled svc \<and> name svc \<notin> set (failedServices this))
        \<longrightarrow> availableServices this = [b, c, a] \<and>
            ((\<exists>u\<in>set text. \<not> isWhiteSpace u) \<longrightarrow>
               snd (snd (translateText this text sourceLang targetLang)) =
                 (if attemptSucceeds (translator b text sourceLang targetLang) then [b]
                  else if attemptSucceeds (translator c text sourceLang targetLang) then [b, c]
                  else [b, c, a])))"
proof -
  have calls: "snd (snd (translateText this text sourceLang targetLang)) =
          takeWhile (\<lambda>svc. \<not> attemptSucceeds (translator svc text sourceLang targetLang))
            (availableServices this) @
          take 1 (dropWhile (\<lambda>svc. \<not> attemptSucceeds (translator svc text sourceLang targetLang))
                    (availableServices this))"
    if "\<exists>u\<in>set text. \<not> isWhiteSpace u"
    using that trim_empty [of "text"] by (intro translateText_calls) blast
  have order: "availableServices this = [b, c, a]"
    if "services this = [a, b, c] \<and> priority a = 2 \<and> priority b = 0 \<and> priority c = 1 \<and>
        (\<forall>svc\<in>{a, b, c}. enabled svc \<and> name svc \<notin> set (failedServices this))"
    using that by (auto simp: availableServices_def)
  have "snd (snd (translateText this text sourceLang targetLang)) =
                 (if attemptSucceeds (translator b text sourceLang targetLang) then [b]
                  else if attemptSucceeds (translator c text sourceLang targetLang) then [b, c]
                  else [b, c, a])"
    if "availableServices this = [b, c, a]" "\<exists>u\<in>set text. \<not> isWhiteSpace u"
    using calls [OF that(2)] that(1) by simp
  with calls order translateText_calls_prefix [of "this" "text" sourceLang targetLang]
  show ?thesis
    by (auto simp: availableServices_def sort_key_stable)
qed

theorem candidate_list_witness:
  "availableServices
     ((newTranslationService rateLimited rateLimited rateLimited rateLimited)
        \<lparr>services := [exampleProvider ''A'' 2 rateLimited, exampleProvider ''B'' 0 rateLimited,
                      exampleProvider ''C'' 1 rateLimited]\<rparr>)
   = [exampleProvider ''B'' 0 rateLimited, exampleProvider ''C'' 1 rateLimited,
      exampleProvider ''A'' 2 rateLimited]
   \<and> snd (snd (translateText
       ((newTranslationService rateLimited rateLimited rateLimited rateLimited)
          \<lparr>services := [exampleProvider ''A'' 2 rateLimited, exampleProvider ''B'' 0 rateLimited,
                        exampleProvider ''C'' 1 rateLimited]\<rparr>)
       (ascii ''hello world'') (ascii ''en'') (ascii ''uk'')))
   = [exampleProvider ''B'' 0 rateLimited, exampleProvider ''C'' 1 rateLimited,
      exampleProvider ''A'' 2 rateLimited]
   \<and> snd (snd (translateText
       ((newTranslationService rateLimited rateLimited rateLimited rateLimited)
          \<lparr>services := [exampleProvider ''A'' 2 rateLimited, exampleProvider ''B'' 0 rateLimited,
                        exampleProvider ''C'' 1 (constantTranslator (Returned greeting))]\<rparr>)
       (ascii ''hello world'') (ascii ''en'') (ascii ''uk'')))
   = [exampleProvider ''B'' 0 rateLimited,
      exampleProvider ''C'' 1 (constantTranslator (Returned greeting))]"
proof -
  let ?a = "exampleProvider ''A'' 2 rateLimited" and ?b = "exampleProvider ''B'' 0 rateLimited"
  let ?c = "exampleProvider ''C'' 1 rateLimited"
  let ?c' = "exampleProvider ''C'' 1 (constantTranslator (Returned greeting))"
  let ?W = "newTranslationService rateLimited rateLimited rateLimited rateLimited"
  have nb: "\<exists>u\<in>set (ascii ''hello world''). \<not> isWhiteSpace u"
    by (simp add: ascii_def isWhiteSpace_def)
  have f: "\<not> attemptSucceeds (translator ?b (ascii ''hello world'') (ascii ''en'') (ascii ''uk''))"
    "\<not> attemptSucceeds (translator ?c (ascii ''hello world'') (ascii ''en'') (ascii ''uk''))"
    "attemptSucceeds (translator ?c' (ascii ''hello world'') (ascii ''en'') (ascii ''uk''))"
    by (simp_all add: exampleProvider_def constantTranslator_def attemptSucceeds_Returned
        greeting_def)
  have p: "services (?W\<lparr>services := [?a, ?b, ?c]\<rparr>) = [?a, ?b, ?c] \<and>
      priority ?a = 2 \<and> priority ?b = 0 \<and> priority ?c = 1 \<and>
      (\<forall>svc\<in>{?a, ?b, ?c}. enabled svc \<and>
         name svc \<notin> set (failedServices (?W\<lparr>services := [?a, ?b, ?c]\<rparr>)))"
    "services (?W\<lparr>services := [?a, ?b, ?c']\<rparr>) = [?a, ?b, ?c'] \<and>
      priority ?a = 2 \<and> priority ?b = 0 \<and> priority ?c' = 1 \<and>
      (\<forall>svc\<in>{?a, ?b, ?c'}. enabled svc \<and>
         name svc \<notin> set (failedServices (?W\<lparr>services := [?a, ?b, ?c']\<rparr>)))"
    by (simp_all add: exampleProvider_def newTranslationService_def)
  from candidate_list [of "?W\<lparr>services := [?a, ?b, ?c]\<rparr>" "ascii ''hello world''"
      "ascii ''en''" "ascii ''uk''" ?a ?b ?c] p(1) nb f(1,2)
  have "availableServices (?W\<lparr>services := [?a, ?b, ?c]\<rparr>) = [?b, ?c, ?a]"
    and "snd (snd (translateText (?W\<lparr>services := [?a, ?b, ?c]\<rparr>)
           (ascii ''hello world'') (ascii ''en'') (ascii ''uk''))) = [?b, ?c, ?a]"
    by simp_all
  moreover from candidate_list [of "?W\<lparr>services := [?a, ?b, ?c']\<rparr>" "ascii ''hello world''"
      "ascii ''en''" "ascii ''uk''" ?a ?b ?c'] p(2) nb f(1,3)
  have "snd (snd (translateText (?W\<lparr>services := [?a, ?b, ?c']\<rparr>)
           (ascii ''hello world'') (ascii ''en'') (ascii ''uk''))) = [?b, ?c']"
    by simp
  ultimately show ?thesis by simp
qed

text \<open>
  C4. A result with \<open>success\<close> set should end the call with a SUCCESS entry. It does not
  when the result carries no text, which is what \<^verbatim>\<open>translateMyMemory\<close> resolves with for
  a response of status 200 without \<^verbatim>\<open>translatedText\<close>: the other three adapters throw
  in that case, this one returns the missing field. Reading the length of the text for
  the SUCCESS entry then throws inside the \<^verbatim>\<open>try\<close> block. In the run below the first
  provider is called and resolves with such a result; the call does not return it, the
  entries about that provider are an INFO and an ERROR entry, and the second provider
  is called as well.
\<close>

theorem success_without_text_run:
  "translator (services secondAnswers ! 0) (ascii ''hello world'') (ascii ''en'') (ascii ''uk'')
     = Returned textless
   \<and> success textless
   \<and> services secondAnswers ! 0 \<in> set (snd (snd
        (translateText secondAnswers (ascii ''hello world'') (ascii ''en'') (ascii ''uk''))))
   \<and> fst (translateText secondAnswers (ascii ''hello world'') (ascii ''en'') (ascii ''uk''))
        \<noteq> textless
   \<and> snd (snd (translateText secondAnswers (ascii ''hello world'') (ascii ''en'') (ascii ''uk'')))
        = [services secondAnswers ! 0, services secondAnswers ! 1]
   \<and> map level (newEntries secondAnswers
        (fst (snd (translateText secondAnswers (ascii ''hello world'') (ascii ''en'') (ascii ''uk'')))))
        = [INFO, INFO, INFO, ERROR, INFO, SUCCESS]
   \<and> map service (newEntries secondAnswers
        (fst (snd (translateText secondAnswers (ascii ''hello world'') (ascii ''en'') (ascii ''uk'')))))
        = [None, None, Some (ascii ''MyMemory''), Some (ascii ''MyMemory''),
           Some (ascii ''LibreTranslate''), Some (ascii ''LibreTranslate'')]"
proof -
  have "translator (services secondAnswers ! 0) (ascii ''hello world'') (ascii ''en'') (ascii ''uk'')
     = Returned textless"
    by (simp add: secondAnswers_def newTranslationService_def constantTranslator_def)
  moreover have "success textless" "greeting \<noteq> textless"
    by (simp_all add: textless_def greeting_def)
  ultimately show ?thesis
    using secondAnswers_entries by (simp add: secondAnswers_run)
qed

text \<open>
  C5. For empty or all-whitespace input the call returns the failure object with empty
  text, its only effect is one WARN entry, and no translator is called.
\<close>

theorem translateText_empty_input:
  assumes "\<forall>c\<in>set text. isWhiteSpace c"
  shows "translateText this text sourceLang targetLang =
           (\<lparr>success = False, text_r = JString [], service_r = None\<rparr>,
            log WARN emptyTextMsg None NoDetails this, [])
       \<and> newEntries this (log WARN emptyTextMsg None NoDetails this) =
           [\<lparr>level = WARN, service = None, message = emptyTextMsg, details = NoDetails\<rparr>]
       \<and> failedServices (log WARN emptyTextMsg None NoDetails this) = failedServices this"
  using assms trim_empty [of "text"] by (simp add: translateText_def newEntries_def)

theorem translateText_empty_input_witness:
  "translateText (newTranslationService rateLimited rateLimited rateLimited rateLimited)
     [0x20, 0x09, 0x0A, 0xA0] (ascii ''en'') (ascii ''uk'') =
     (\<lparr>success = False, text_r = JString [], service_r = None\<rparr>,
      log WARN emptyTextMsg None NoDetails
        (newTranslationService rateLimited rateLimited rateLimited rateLimited), [])"
proof -
  have "\<forall>c\<in>set [0x20, 0x09, 0x0A, 0xA0]. isWhiteSpace c" by (simp add: isWhiteSpace_def)
  from translateText_empty_input [OF this] show ?thesis by simp
qed

text \<open>
  C6. After an append the log holds at most 1000 entries, provided it did before;
  appending to a log of exactly 1000 entries puts the new entry last and drops the
  oldest one. So the log of a freshly constructed service object holds at most 1000
  entries after any sequence of appends.
\<close>

theorem log_bounded:
  assumes "maxLogSize this = 1000" and "length (logs this) \<le> 1000"
  shows "length (logs (log lv msg svc det this)) \<le> 1000
       \<and> (length (logs this) < 1000 \<longrightarrow>
            logs (log lv msg svc det this)
              = logs this @ [\<lparr>level = lv, service = svc, message = msg, details = det\<rparr>])
       \<and> (length (logs this) = 1000 \<longrightarrow>
            logs (log lv msg svc det this)
              = tl (logs this) @ [\<lparr>level = lv, service = svc, message = msg, details = det\<rparr>]
          \<and> length (logs (log lv msg svc det this)) = 1000)
       \<and> length (logs (fold (\<lambda>(lv, msg, svc, det). log lv msg svc det) entries
            (newTranslationService myMemory libreTranslate apertium googleAPI))) \<le> 1000"
proof -
  have "length (logs (fold (\<lambda>(lv, msg, svc, det). log lv msg svc det) entries
            (newTranslationService myMemory libreTranslate apertium googleAPI))) \<le> 1000"
    using length_logs_fold
      [of "newTranslationService myMemory libreTranslate apertium googleAPI" entries]
    by (simp add: newTranslationService_def)
  with assms show ?thesis
    by (cases "logs this") (auto simp: log_def Let_def)
qed

theorem log_bounded_witness:
  "length (logs (log INFO emptyTextMsg None NoDetails
      ((newTranslationService rateLimited rateLimited rateLimited rateLimited)
         \<lparr>logs := replicate 1000 backupEntry\<rparr>))) = 1000
   \<and> logs (log INFO emptyTextMsg None NoDetails
      ((newTranslationService rateLimited rateLimited rateLimited rateLimited)
         \<lparr>logs := replicate 1000 backupEntry\<rparr>))
     = replicate 999 backupEntry
       @ [\<lparr>level = INFO, service = None, message = emptyTextMsg, details = NoDetails\<rparr>]"
  using log_bounded [of "(newTranslationService rateLimited rateLimited rateLimited rateLimited)
         \<lparr>logs := replicate 1000 backupEntry\<rparr>" INFO emptyTextMsg None NoDetails]
  by (simp add: newTranslationService_def)

text \<open>
  C7. When no provider is enabled, or no candidate's attempt succeeds, the call for
  \<^verbatim>\<open>hello world\<close> returns the backup result: the marker followed by the two Ukrainian
  words, labelled \<^verbatim>\<open>BackupDictionary\<close>; the last entry logged is the WARN entry of the
  backup translation.
\<close>

theorem backup_fallback:
  assumes "(\<forall>svc\<in>set (services this). \<not> enabled svc) \<or>
           (\<forall>svc\<in>set (availableServices this).
              \<not> attemptSucceeds (translator svc (ascii ''hello world'') (ascii ''en'') (ascii ''uk'')))"
  shows "fst (translateText this (ascii ''hello world'') (ascii ''en'') (ascii ''uk'')) =
           \<lparr>success = True,
            text_r = JString (backupMarker @
              [0x43F, 0x440, 0x438, 0x432, 0x456, 0x442, 0x20, 0x441, 0x432, 0x456, 0x442]),
            service_r = Some (ascii ''BackupDictionary'')\<rparr>
       \<and> last (uiEntries (fst (snd
             (translateText this (ascii ''hello world'') (ascii ''en'') (ascii ''uk''))))) =
           \<lparr>level = WARN, service = Some (ascii ''Backup''), message = backupMsg,
            details = NoDetails\<rparr>"
proof -
  from assms have "\<forall>svc\<in>set (availableServices this).
      \<not> attemptSucceeds (translator svc (ascii ''hello world'') (ascii ''en'') (ascii ''uk''))"
    by (auto simp: availableServices_def)
  from translateText_all_fail(1,4) [OF hello_world_not_blank this] show ?thesis
    by (simp add: backupResult_def translated_hello_world backupEntry_def)
qed

theorem backup_fallback_witness:
  "fst (translateText (newTranslationService rateLimited rateLimited rateLimited rateLimited)
     (ascii ''hello world'') (ascii ''en'') (ascii ''uk'')) =
     \<lparr>success = True,
      text_r = JString (backupMarker @
        [0x43F, 0x440, 0x438, 0x432, 0x456, 0x442, 0x20, 0x441, 0x432, 0x456, 0x442]),
      service_r = Some (ascii ''BackupDictionary'')\<rparr>
   \<and> fst (translateText
       (disabled (newTranslationService (constantTranslator (Returned greeting))
           (constantTranslator (Returned greeting)) (constantTranslator (Returned greeting))
           (constantTranslator (Returned greeting))))
       (ascii ''hello world'') (ascii ''en'') (ascii ''uk'')) =
     \<lparr>success = True,
      text_r = JString (backupMarker @
        [0x43F, 0x440, 0x438, 0x432, 0x456, 0x442, 0x20, 0x441, 0x432, 0x456, 0x442]),
      service_r = Some (ascii ''BackupDictionary'')\<rparr>"
proof -
  let ?W = "newTranslationService rateLimited rateLimited rateLimited rateLimited"
  have "\<forall>svc\<in>set (availableServices ?W).
          \<not> attemptSucceeds (translator svc (ascii ''hello world'') (ascii ''en'') (ascii ''uk''))"
    by (simp add: available_new) (simp add: newTranslationService_def)
  then have 1: "(\<forall>svc\<in>set (services ?W). \<not> enabled svc) \<or>
           (\<forall>svc\<in>set (availableServices ?W).
              \<not> attemptSucceeds (translator svc (ascii ''hello world'') (ascii ''en'') (ascii ''uk'')))"
    by blast
  let ?N = "disabled (newTranslationService (constantTranslator (Returned greeting))
           (constantTranslator (Returned greeting)) (constantTranslator (Returned greeting))
           (constantTranslator (Returned greeting)))"
  have 2: "(\<forall>svc\<in>set (services ?N). \<not> enabled svc) \<or>
           (\<forall>svc\<in>set (availableServices ?N).
              \<not> attemptSucceeds (translator svc (ascii ''hello world'') (ascii ''en'') (ascii ''uk'')))"
    by (simp add: disabled_def)
  from backup_fallback [OF 1] backup_fallback [OF 2] show ?thesis by simp
qed

text \<open>
  C8. The substitution works on runs of ASCII word characters (letters, digits and the
  underscore). Cutting the text at any other character, a letter outside ASCII
  included, commutes with it, so such characters stay where they are; and a run of word
  characters is replaced exactly when the whole run equals a key of the dictionary up
  to case, by the value of the first such key. So \<^verbatim>\<open>this is a test\<close> keeps \<^verbatim>\<open>this\<close> and
  loses \<^verbatim>\<open>is\<close>.
\<close>

theorem backup_whole_words:
  "(\<not> isWordChar c \<longrightarrow> translated (a @ c # b) = translated a @ c # translated b)
   \<and> ((\<forall>x\<in>set w. isWordChar x) \<longrightarrow>
        translated w =
          (case find (\<lambda>(word, val). map canonicalize w = map canonicalize word) backupDict of
             None \<Rightarrow> w | Some (word, val) \<Rightarrow> val))
   \<and> translated (ascii ''this is a test'') = ascii ''this '' @ [0x454] @ ascii '' a test''"
  unfolding translated_def
  using fold_replace_split [OF dict_isKey] fold_replace_token [OF dict_keys]
    translated_this_is_a_test [unfolded translated_def]
  by blast

theorem backup_whole_words_witness:
  "translated (ascii ''this'' @ 0x2C # ascii ''IS'') = ascii ''this'' @ 0x2C # [0x454]"
proof -
  have c: "\<not> isWordChar 0x2C" by (simp add: isWordChar_def)
  have w1: "\<forall>x\<in>set (ascii ''this''). isWordChar x"
    and w2: "\<forall>x\<in>set (ascii ''IS''). isWordChar x"
    by (simp_all add: ascii_def isWordChar_def)
  have f1: "find (\<lambda>(word, val). map canonicalize (ascii ''this'') = map canonicalize word)
      backupDict = None"
    by code_simp
  have f2: "find (\<lambda>(word, val). map canonicalize (ascii ''IS'') = map canonicalize word)
      backupDict = Some (ascii ''is'', [0x454])"
    by code_simp
  from backup_whole_words [of "0x2C" "ascii ''this''" "ascii ''IS''" "ascii ''this''"]
    backup_whole_words [of "0x2C" "ascii ''this''" "ascii ''IS''" "ascii ''IS''"]
    c w1 w2 f1 f2
  show ?thesis by simp
qed

text \<open>
  A word is not safe from the substitution because a reader sees it as one token: in
  \<^verbatim>\<open>hello\<close> written straight after three Cyrillic letters no key stands alone, and the
  key is replaced all the same.
\<close>

theorem key_inside_token_counterexample:
  "\<not> containsKeyAsWord [0x43F, 0x440, 0x438, 0x68, 0x65, 0x6C, 0x6C, 0x6F]
   \<and> translated [0x43F, 0x440, 0x438, 0x68, 0x65, 0x6C, 0x6C, 0x6F] =
       [0x43F, 0x440, 0x438, 0x43F, 0x440, 0x438, 0x432, 0x456, 0x442]
   \<and> translated [0x43F, 0x440, 0x438, 0x68, 0x65, 0x6C, 0x6C, 0x6F] \<noteq>
       [0x43F, 0x440, 0x438, 0x68, 0x65, 0x6C, 0x6C, 0x6F]"
  using prihello_no_key by (simp add: translated_prihello)

text \<open>
  C9. The backup translation is a function of the text alone and always reports
  success. On a text in which no key of the dictionary occurs, up to case, between two
  places that are each an end of the text or next to a character other than an ASCII
  letter, a digit or the underscore, its result is the marker followed by the text as
  it is.
\<close>

theorem backup_without_keys:
  "((\<forall>(word, val)\<in>set backupDict. \<not> containsWholeWord word text) \<longrightarrow>
      useBackupTranslation this text =
        (\<lparr>success = True, text_r = JString (backupMarker @ text),
          service_r = Some (ascii ''BackupDictionary'')\<rparr>,
         log WARN backupMsg (Some (ascii ''Backup'')) NoDetails this))
   \<and> success (fst (useBackupTranslation this text))
   \<and> fst (useBackupTranslation this text) = fst (useBackupTranslation other text)"
proof -
  have "translated text = text" if "\<forall>(word, val)\<in>set backupDict. \<not> containsWholeWord word text"
    unfolding translated_def
    using that dict_isKey by (intro fold_replace_no_whole_word) auto
  then show ?thesis by (simp add: useBackupTranslation_def)
qed

theorem backup_without_keys_witness:
  "fst (useBackupTranslation (newTranslationService rateLimited rateLimited rateLimited rateLimited)
     (ascii ''this test'')) =
     \<lparr>success = True, text_r = JString (backupMarker @ ascii ''this test''),
      service_r = Some (ascii ''BackupDictionary'')\<rparr>"
  using backup_without_keys
    [of "ascii ''this test''" "newTranslationService rateLimited rateLimited rateLimited rateLimited"]
    this_test_without_keys
  by simp

text \<open>
  The name \<^verbatim>\<open>Noel\<close>, written with a diaeresis on the \<^verbatim>\<open>e\<close> (code unit \<^verbatim>\<open>0xEB\<close>), holds
  no key as a word of its own, yet the backup translation does not return it as it is:
  the letter with the diaeresis ends a word for the pattern, and the two letters before
  it are the key \<^verbatim>\<open>no\<close>.
\<close>

theorem backup_alters_name_counterexample:
  "\<not> containsKeyAsWord [0x4E, 0x6F, 0xEB, 0x6C]
   \<and> fst (useBackupTranslation
          (newTranslationService rateLimited rateLimited rateLimited rateLimited)
          [0x4E, 0x6F, 0xEB, 0x6C]) =
       \<lparr>success = True, text_r = JString (backupMarker @ [0x43D, 0x456, 0xEB, 0x6C]),
        service_r = Some (ascii ''BackupDictionary'')\<rparr>
   \<and> text_r (fst (useBackupTranslation
          (newTranslationService rateLimited rateLimited rateLimited rateLimited)
          [0x4E, 0x6F, 0xEB, 0x6C])) \<noteq>
       JString (backupMarker @ [0x4E, 0x6F, 0xEB, 0x6C])"
  using noel_no_key by (simp add: useBackupTranslation_def translated_noel)

text \<open>
  C10. A candidate whose translator resolves with \<open>success\<close> not set is passed over
  silently: its turn in the loop appends the INFO entry of the attempt and nothing else,
  then the loop goes on with the candidates after it. The names of the providers being
  unique, over the whole call every entry that carries the provider's name is an INFO
  entry (or the entry of the backup translation, whose label is \<^verbatim>\<open>Backup\<close>), and the
  provider is not in the failure set, before or after.
\<close>

theorem unsuccessful_result_silent:
  assumes "distinct (map name (services this))"
    and "svc \<in> set (availableServices this)"
    and "translator svc text sourceLang targetLang = Returned result"
    and "\<not> success result"
    and "translateText this text sourceLang targetLang = (returned, this', calls)"
  shows "(\<forall>rest before.
            tryServices text sourceLang targetLang (svc # rest) before =
              (case tryServices text sourceLang targetLang rest
                      (log INFO (attemptPrefix @ name svc) (Some (name svc)) NoDetails before) of
                 (r, after, called) \<Rightarrow> (r, after, svc # called)))
       \<and> (\<forall>e\<in>set (newEntries this this').
             service e = Some (name svc) \<longrightarrow> level e = INFO \<or> e = backupEntry)
       \<and> name svc \<notin> set (failedServices this)
       \<and> name svc \<notin> set (failedServices this')"
proof -
  have step: "tryServices text sourceLang targetLang (svc # rest) before =
      (case tryServices text sourceLang targetLang rest
              (log INFO (attemptPrefix @ name svc) (Some (name svc)) NoDetails before) of
         (r, after, called) \<Rightarrow> (r, after, svc # called))" for rest before
    using assms(3,4)
    by (simp add: tryServices_fail_step attemptSucceeds_Returned failedAttempt_unsuccessful)
  from assms(2) have before: "name svc \<notin> set (failedServices this)"
    by (auto simp: availableServices_def)
  let ?s = "started this text sourceLang targetLang"
  obtain e1 e2 where s: "uiEntries ?s = uiEntries this @ [e1, e2]"
    "service e1 = None" "service e2 = None"
    using started_ui by blast
  have d: "distinct (map name (availableServices this))"
    using assms(1) by (rule distinct_names_available)
  have "(\<forall>e\<in>set (newEntries this this').
             service e = Some (name svc) \<longrightarrow> level e = INFO \<or> e = backupEntry)
       \<and> name svc \<notin> set (failedServices this')"
  proof (cases rule: translateText_cases [of "text" "this" sourceLang targetLang])
    case empty
    with assms(5) before show ?thesis by (auto simp: newEntries_def)
  next
    case none
    with assms(2) show ?thesis by simp
  next
    case (found result3 this3 calls3)
    with assms(5) have eq: "this' = this3" by simp
    obtain ys where ys: "uiEntries this3 = uiEntries ?s @ ys"
      using tryServices_ui [OF found(2)] by blast
    from tryServices_unsuccessful [OF d found(2) assms(2,3,4)] ys
    have "\<forall>e\<in>set ys. service e = Some (name svc) \<longrightarrow> level e = INFO"
      by (simp add: newEntries_def)
    moreover from s(1) ys have "newEntries this this3 = [e1, e2] @ ys"
      by (simp add: newEntries_def)
    moreover from tryServices_unsuccessful_failed [OF d found(2) assms(2,3,4)] before
    have "name svc \<notin> set (failedServices this3)" by simp
    ultimately show ?thesis using eq s(2,3) by auto
  next
    case (exhausted this3)
    let ?final = "log WARN backupMsg (Some (ascii ''Backup'')) NoDetails
            (log ERROR allFailedMsg None (FailedDetails (failedServices this3)) this3)"
    from exhausted assms(5) have eq: "this' = ?final" by simp
    obtain ys where ys: "uiEntries this3 = uiEntries ?s @ ys"
      using tryServices_ui [OF exhausted(2)] by blast
    from tryServices_unsuccessful [OF d exhausted(2) assms(2,3,4)] ys
    have "\<forall>e\<in>set ys. service e = Some (name svc) \<longrightarrow> level e = INFO"
      by (simp add: newEntries_def)
    moreover from s(1) ys have "newEntries this ?final = [e1, e2] @ ys @
        [\<lparr>level = ERROR, service = None, message = allFailedMsg,
           details = FailedDetails (failedServices this3)\<rparr>, backupEntry]"
      by (simp add: newEntries_def backupEntry_def)
    moreover from tryServices_unsuccessful_failed [OF d exhausted(2) assms(2,3,4)] before
    have "name svc \<notin> set (failedServices ?final)" by simp
    ultimately show ?thesis using eq s(2,3) by auto
  qed
  with step before show ?thesis by blast
qed

theorem unsuccessful_result_silent_witness:
  "ascii ''MyMemory'' \<notin> set (failedServices firstDeclines)
   \<and> ascii ''MyMemory'' \<notin> set (failedServices (fst (snd
        (translateText firstDeclines (ascii ''hello world'') (ascii ''en'') (ascii ''uk'')))))"
proof -
  let ?run = "translateText firstDeclines (ascii ''hello world'') (ascii ''en'') (ascii ''uk'')"
  let ?p = "services firstDeclines ! 0"
  have d: "distinct (map name (services firstDeclines))"
    by (simp add: firstDeclines_def newTranslationService_def ascii_def)
  have m: "?p \<in> set (availableServices firstDeclines)"
    by (simp add: firstDeclines_def available_new) (simp add: newTranslationService_def)
  have r: "translator ?p (ascii ''hello world'') (ascii ''en'') (ascii ''uk'') = Returned declined"
    by (simp add: firstDeclines_def newTranslationService_def constantTranslator_def)
  have s: "\<not> success declined" by (simp add: declined_def)
  have t: "?run = (fst ?run, fst (snd ?run), snd (snd ?run))" by simp
  have n: "name ?p = ascii ''MyMemory''"
    by (simp add: firstDeclines_def newTranslationService_def)
  from unsuccessful_result_silent [OF d m r s t] n show ?thesis by simp
qed

end
